theory Spec2Isabelle
  imports Complex_Main "HOL-Library.Sublist"
begin

section \<open>Route expansion and map rendering (PlanningMap / UserRouteMap)\<close>

text \<open>
  The two map components, \<^verbatim>\<open>src/components/admin/PlanningMap.tsx\<close> and its near copy
  \<^verbatim>\<open>src/unnamed/part_008\<close> (UserRouteMap), run the same effect: fetch the station
  directory, expand every route through \<^verbatim>\<open>POST /graph/expand-route\<close>, turn the expanded
  identifiers into coordinates, and publish the result in four React state variables.
  They differ only in how a route is read from the input and in the idPrefix of the
  fallback polyline id, so the model has one core over \<open>RouteInput\<close> with that idPrefix as
  a parameter, and one reading function per component.

  Coordinates are JavaScript numbers decoded from JSON, hence finite: \<^verbatim>\<open>!==\<close> on them is
  inequality of values, and they are modelled as \<open>real\<close>. Strings are lists of bytes
  (UTF-8); the Turkish letters of the messages are written by their byte codes. The
  code only concatenates strings and tests them for emptiness, so the encoding does
  not matter.
\<close>

subsection \<open>Data\<close>

type_synonym LatLngTuple = "real \<times> real"

text \<open>\<^verbatim>\<open>interface Station\<close>; \<open>is_active\<close> is optional in the source.\<close>

record Station =
  st_id :: int
  st_name :: string
  lat :: real
  lon :: real
  is_active :: "bool option"

text \<open>\<^verbatim>\<open>interface PolylineData { id; color; points }\<close>.\<close>

record PolylineData =
  pl_id :: string
  color :: string
  points :: "LatLngTuple list"

text \<open>
  The part of \<^verbatim>\<open>PlanningStop\<close>, \<^verbatim>\<open>PlanningVehicle\<close> and \<^verbatim>\<open>PlanningResponse\<close>
  that the effect reads (the cost and load fields are displayed elsewhere).
\<close>

record PlanningStop =
  station_id :: int
  station_name :: string

record PlanningVehicle =
  vehicle_id :: string
  stops :: "PlanningStop list"

record PlanningResponse =
  date :: string
  vehicles :: "PlanningVehicle list"

text \<open>\<^verbatim>\<open>UserRoutePolyline\<close> and \<^verbatim>\<open>UserRouteMapData\<close> of UserRouteMap.\<close>

record UserRoutePolyline =
  vehicle_label :: string
  station_ids :: "int list"

record UserRouteMapData =
  center :: LatLngTuple
  map_polylines :: "UserRoutePolyline list"

text \<open>
  What the loop reads of one route: its label (\<^verbatim>\<open>vehicle.vehicle_id\<close>, or
  \<^verbatim>\<open>poly.vehicle_label\<close>) and its stop identifiers
  (\<^verbatim>\<open>stops.map((s) => s.station_id)\<close>, or \<^verbatim>\<open>poly.station_ids\<close>).
\<close>

record RouteInput =
  label :: string
  stopIds :: "int list"

definition planningRoutes :: "PlanningResponse \<Rightarrow> RouteInput list" where
  "planningRoutes planning =
     map (\<lambda>vehicle. \<lparr>label = vehicle_id vehicle, stopIds = map station_id (stops vehicle)\<rparr>)
       (vehicles planning)"

definition userRoutes :: "UserRouteMapData \<Rightarrow> RouteInput list" where
  "userRoutes mapData =
     map (\<lambda>poly. \<lparr>label = vehicle_label poly, stopIds = station_ids poly\<rparr>)
       (map_polylines mapData)"

text \<open>The four \<^verbatim>\<open>useState\<close> variables: the component's observable output.\<close>

record RenderState =
  stations :: "Station list"
  polylines :: "PolylineData list"
  loading :: bool
  error :: "string option"

subsection \<open>Constants\<close>

definition MAP_COLORS :: "string list" where
  "MAP_COLORS = [''#34d399'', ''#22d3ee'', ''#fbbf24'', ''#a78bfa'', ''#f472b6'', ''#fb7185'']"

definition DEFAULT_CENTER :: LatLngTuple where
  "DEFAULT_CENTER = (39, 35)"

text \<open>The fallback id prefixes: \<^verbatim>\<open>`vehicle-${vIdx + 1}`\<close> and \<^verbatim>\<open>`route-${pIdx + 1}`\<close>.\<close>

definition PLANNING_PREFIX :: string where
  "PLANNING_PREFIX = ''vehicle-''"

definition USER_PREFIX :: string where
  "USER_PREFIX = ''route-''"

text \<open>The message of the error \<^verbatim>\<open>fetchStations\<close> throws: "Istasyonlar alinamadi."
  with the dotted capital I and the dotless i.\<close>

definition MSG_STATIONS :: string where
  "MSG_STATIONS = [CHR 0xC4, CHR 0xB0] @ ''stasyonlar al'' @ [CHR 0xC4, CHR 0xB1] @ ''namad''
     @ [CHR 0xC4, CHR 0xB1] @ ''.''"

text \<open>The message of the error \<^verbatim>\<open>expandRoute\<close> throws: "Rota genisletilemiyor."\<close>

definition MSG_EXPAND :: string where
  "MSG_EXPAND = ''Rota geni'' @ [CHR 0xC5, CHR 0x9F] @ ''letilemiyor.''"

text \<open>The banner text of both catch paths: "Bu rota icin bazi istasyonlar arasinda yol
  bulunamadi. Lutfen km baglantilarini kontrol edin." (no road was found between some
  stations of this route; please check the km links).\<close>

definition MSG_NO_PATH :: string where
  "MSG_NO_PATH = ''Bu rota i'' @ [CHR 0xC3, CHR 0xA7] @ ''in baz'' @ [CHR 0xC4, CHR 0xB1]
     @ '' istasyonlar aras'' @ [CHR 0xC4, CHR 0xB1] @ ''nda yol bulunamad'' @ [CHR 0xC4, CHR 0xB1]
     @ ''. L'' @ [CHR 0xC3, CHR 0xBC] @ ''tfen km ba'' @ [CHR 0xC4, CHR 0x9F] @ ''lant''
     @ [CHR 0xC4, CHR 0xB1] @ ''lar'' @ [CHR 0xC4, CHR 0xB1] @ ''n'' @ [CHR 0xC4, CHR 0xB1]
     @ '' kontrol edin.''"

text \<open>": Rota hesaplanamadi" (the route could not be computed) and "Arac " (vehicle).\<close>

definition MSG_ROUTE :: string where
  "MSG_ROUTE = '': Rota hesaplanamad'' @ [CHR 0xC4, CHR 0xB1]"

definition ARAC :: string where
  "ARAC = ''Ara'' @ [CHR 0xC3, CHR 0xA7] @ '' ''"

subsection \<open>String helpers of the language\<close>

text \<open>\<^verbatim>\<open>a || b\<close> on strings: the empty string is falsy.\<close>

definition orElse :: "string \<Rightarrow> string \<Rightarrow> string" where
  "orElse a b = (if a = [] then b else a)"

text \<open>A number inside a template literal: its decimal digits.\<close>

definition digit :: "nat \<Rightarrow> char" where
  "digit d = ''0123456789'' ! d"

fun string_of_nat :: "nat \<Rightarrow> string" where
  "string_of_nat n =
     (if n < 10 then [digit n] else string_of_nat (n div 10) @ [digit (n mod 10)])"

declare string_of_nat.simps [simp del]

text \<open>\<^verbatim>\<open>Array.prototype.join\<close>.\<close>

fun join :: "string \<Rightarrow> string list \<Rightarrow> string" where
  "join sep [] = []"
| "join sep [x] = x"
| "join sep (x # y # ys) = x @ sep @ join sep (y # ys)"

subsection \<open>The two service calls\<close>

text \<open>
  What one \<^verbatim>\<open>fetch\<close> can come back with: the promise rejects (a network failure),
  the response is not \<^verbatim>\<open>ok\<close> (with the \<^verbatim>\<open>detail\<close> string of its body, when the body
  parses and has one), or the response is ok with its JSON body (\<open>None\<close> when
  \<^verbatim>\<open>response.json()\<close> rejects).
\<close>

datatype 'a response = FetchRejected | HttpNotOk "string option" | HttpOk "'a option"

datatype js_error = NetworkError | HttpError string | JsonError

text \<open>\<^verbatim>\<open>(detail.detail as string) || fallback\<close>.\<close>

definition detailOr :: "string option \<Rightarrow> string \<Rightarrow> string" where
  "detailOr detail fallback = orElse (case detail of None \<Rightarrow> [] | Some d \<Rightarrow> d) fallback"

fun fetchStations :: "Station list response \<Rightarrow> js_error + Station list" where
  "fetchStations FetchRejected = Inl NetworkError"
| "fetchStations (HttpNotOk detail) = Inl (HttpError (detailOr detail MSG_STATIONS))"
| "fetchStations (HttpOk None) = Inl JsonError"
| "fetchStations (HttpOk (Some stationList)) = Inr stationList"

text \<open>The body of an expansion response; the field may be missing or falsy.\<close>

record ExpandPayload =
  expanded_station_ids :: "int list option"

fun expandRoute :: "ExpandPayload response \<Rightarrow> js_error + int list" where
  "expandRoute FetchRejected = Inl NetworkError"
| "expandRoute (HttpNotOk detail) = Inl (HttpError (detailOr detail MSG_EXPAND))"
| "expandRoute (HttpOk None) = Inl JsonError"
| "expandRoute (HttpOk (Some payload)) =
     Inr (case expanded_station_ids payload of None \<Rightarrow> [] | Some ids \<Rightarrow> ids)"

subsection \<open>The polyline builder\<close>

text \<open>\<^verbatim>\<open>stationList.forEach((st) => stationMap.set(st.id, st))\<close>: a later entry with
  the same id replaces an earlier one.\<close>

definition mkStationMap :: "Station list \<Rightarrow> (int \<rightharpoonup> Station)" where
  "mkStationMap stationList = foldl (\<lambda>stationMap st. stationMap(st_id st \<mapsto> st)) Map.empty stationList"

text \<open>
  The inner loop \<^verbatim>\<open>for (const sid of expandedIds)\<close>, with \<open>pts\<close> the array built so far:
  \<^verbatim>\<open>last\<close> is undefined on the empty array.
\<close>

fun convert :: "(int \<rightharpoonup> Station) \<Rightarrow> int list \<Rightarrow> LatLngTuple list \<Rightarrow> LatLngTuple list" where
  "convert stationMap [] pts = pts"
| "convert stationMap (sid # rest) pts =
     (case stationMap sid of
        None \<Rightarrow> convert stationMap rest pts
      | Some st \<Rightarrow>
          (let coord = (lat st, lon st) in
           if pts = [] \<or> fst (last pts) \<noteq> fst coord \<or> snd (last pts) \<noteq> snd coord
           then convert stationMap rest (pts @ [coord])
           else convert stationMap rest pts))"

subsection \<open>One render cycle: \<^verbatim>\<open>buildRoutes\<close>\<close>

text \<open>
  The locals of the route loop: \<^verbatim>\<open>hasError\<close>, \<^verbatim>\<open>routes\<close>, \<^verbatim>\<open>routeErrors\<close>, and the
  loop's effect on the outside world, the expansion requests issued so far (each with
  the index of its route and the \<^verbatim>\<open>station_ids\<close> of its body).
\<close>

record LoopState =
  hasError :: bool
  routes :: "PolylineData list"
  routeErrors :: "string list"
  requests :: "(nat \<times> int list) list"

definition emptyLoop :: LoopState where
  "emptyLoop = \<lparr>hasError = False, routes = [], routeErrors = [], requests = []\<rparr>"

text \<open>\<^verbatim>\<open>vehicle.vehicle_id || `vehicle-${vIdx + 1}`\<close> and
  \<^verbatim>\<open>vehicle.vehicle_id || `Arac ${vIdx + 1}`\<close>.\<close>

definition routeId :: "string \<Rightarrow> nat \<Rightarrow> RouteInput \<Rightarrow> string" where
  "routeId idPrefix vIdx r = orElse (label r) (idPrefix @ string_of_nat (vIdx + 1))"

definition vehicleName :: "nat \<Rightarrow> RouteInput \<Rightarrow> string" where
  "vehicleName vIdx r = orElse (label r) (ARAC @ string_of_nat (vIdx + 1))"

text \<open>The rest of the \<^verbatim>\<open>try\<close> block once \<^verbatim>\<open>expandRoute\<close> has returned.\<close>

definition pushRoute ::
  "string \<Rightarrow> (int \<rightharpoonup> Station) \<Rightarrow> nat \<Rightarrow> RouteInput \<Rightarrow> int list \<Rightarrow> LoopState \<Rightarrow> LoopState" where
  "pushRoute idPrefix stationMap vIdx r expandedIds acc =
     (let pts = convert stationMap expandedIds [] in
      if length pts > 1
      then acc\<lparr>routes := routes acc @
             [\<lparr>pl_id = routeId idPrefix vIdx r,
               color = MAP_COLORS ! (vIdx mod length MAP_COLORS),
               points = pts\<rparr>]\<rparr>
      else acc)"

text \<open>The inner \<^verbatim>\<open>catch\<close> block, past its check of the abort signal.\<close>

definition recordFailure :: "nat \<Rightarrow> RouteInput \<Rightarrow> LoopState \<Rightarrow> LoopState" where
  "recordFailure vIdx r acc =
     acc\<lparr>hasError := True, routeErrors := routeErrors acc @ [vehicleName vIdx r @ MSG_ROUTE]\<rparr>"

text \<open>One pass of the loop body from the point where the expansion request of route
  \<open>vIdx\<close> has been answered, in a cycle that has not been cancelled.\<close>

definition afterExpand ::
  "string \<Rightarrow> (int \<rightharpoonup> Station) \<Rightarrow> nat \<Rightarrow> RouteInput \<Rightarrow> ExpandPayload response \<Rightarrow> LoopState \<Rightarrow> LoopState" where
  "afterExpand idPrefix stationMap vIdx r resp acc =
     (case expandRoute resp of
        Inr expandedIds \<Rightarrow> pushRoute idPrefix stationMap vIdx r expandedIds acc
      | Inl e \<Rightarrow> recordFailure vIdx r acc)"

text \<open>
  The expansion service: what it answers to the request issued for route \<open>vIdx\<close> with
  the given \<^verbatim>\<open>station_ids\<close>.
\<close>

type_synonym expansion_service = "nat \<Rightarrow> int list \<Rightarrow> ExpandPayload response"

text \<open>
  \<^verbatim>\<open>for (let vIdx = 0; vIdx < vehicles.length; vIdx++)\<close> over the routes from index
  \<open>vIdx\<close> on, in a cycle that is never cancelled: a route without stops is passed over
  (\<^verbatim>\<open>continue\<close>), every other route is sent to the service.
\<close>

fun routeLoop ::
  "string \<Rightarrow> expansion_service \<Rightarrow> (int \<rightharpoonup> Station) \<Rightarrow> RouteInput list \<Rightarrow> nat \<Rightarrow> LoopState \<Rightarrow> LoopState" where
  "routeLoop idPrefix svc stationMap [] vIdx acc = acc"
| "routeLoop idPrefix svc stationMap (r # rest) vIdx acc =
     (if stopIds r = [] then routeLoop idPrefix svc stationMap rest (Suc vIdx) acc
      else routeLoop idPrefix svc stationMap rest (Suc vIdx)
             (afterExpand idPrefix stationMap vIdx r (svc vIdx (stopIds r))
                (acc\<lparr>requests := requests acc @ [(vIdx, stopIds r)]\<rparr>)))"

text \<open>The three state updates \<^verbatim>\<open>buildRoutes\<close> starts with.\<close>

definition beginCycle :: "RenderState \<Rightarrow> RenderState" where
  "beginCycle view = view\<lparr>loading := True, error := None, polylines := []\<rparr>"

text \<open>The outer \<^verbatim>\<open>catch\<close> and \<^verbatim>\<open>finally\<close> of a cycle that has not been cancelled.\<close>

definition failCycle :: "RenderState \<Rightarrow> RenderState" where
  "failCycle view = (view\<lparr>error := Some MSG_NO_PATH\<rparr>)\<lparr>loading := False\<rparr>"

definition warningText :: "string list \<Rightarrow> string" where
  "warningText errs = MSG_NO_PATH @ '' ('' @ join '', '' errs @ '')''"

text \<open>The updates after the loop, and \<^verbatim>\<open>finally\<close>, of a cycle that has not been
  cancelled.\<close>

definition completeCycle :: "Station list \<Rightarrow> LoopState \<Rightarrow> RenderState \<Rightarrow> RenderState" where
  "completeCycle stationList acc view =
     (let view1 = view\<lparr>stations := stationList, polylines := routes acc\<rparr>;
          view2 = (if hasError acc \<and> length (routeErrors acc) > 0
                   then view1\<lparr>error := Some (warningText (routeErrors acc))\<rparr>
                   else view1)
      in view2\<lparr>loading := False\<rparr>)"

text \<open>
  \<^verbatim>\<open>buildRoutes\<close> from its first line to its last, for a cycle that runs to its end
  without being cancelled: \<open>dirResp\<close> is the answer to \<^verbatim>\<open>GET /stations\<close>, \<open>svc\<close> the
  expansion service, \<open>view\<close> the React state the cycle starts from.
\<close>

definition buildRoutes ::
  "string \<Rightarrow> Station list response \<Rightarrow> expansion_service \<Rightarrow> RouteInput list \<Rightarrow> RenderState \<Rightarrow> RenderState" where
  "buildRoutes idPrefix dirResp svc planning view =
     (let view1 = beginCycle view in
      case fetchStations dirResp of
        Inl e \<Rightarrow> failCycle view1
      | Inr stationList \<Rightarrow>
          completeCycle stationList
            (routeLoop idPrefix svc (mkStationMap stationList) planning 0 emptyLoop) view1)"

text \<open>The expansion requests that cycle issues, in order.\<close>

definition expandCalls ::
  "string \<Rightarrow> Station list response \<Rightarrow> expansion_service \<Rightarrow> RouteInput list \<Rightarrow> (nat \<times> int list) list" where
  "expandCalls idPrefix dirResp svc planning =
     (case fetchStations dirResp of
        Inl e \<Rightarrow> []
      | Inr stationList \<Rightarrow>
          requests (routeLoop idPrefix svc (mkStationMap stationList) planning 0 emptyLoop))"

subsection \<open>The loop, declaratively\<close>

text \<open>
  The routes the loop sends to the service, from index \<open>vIdx\<close> on; what a route
  contributes to \<^verbatim>\<open>routes\<close>; what it contributes to \<^verbatim>\<open>routeErrors\<close>. The loop is
  proved to compute exactly these (\<open>routeLoop_routes\<close> and the lemmas after it).
\<close>

definition attempted :: "nat \<Rightarrow> RouteInput list \<Rightarrow> (nat \<times> RouteInput) list" where
  "attempted vIdx planning = filter (\<lambda>(i, r). stopIds r \<noteq> []) (enumerate vIdx planning)"

definition renderedRoute ::
  "string \<Rightarrow> expansion_service \<Rightarrow> (int \<rightharpoonup> Station) \<Rightarrow> nat \<times> RouteInput \<Rightarrow> PolylineData option" where
  "renderedRoute idPrefix svc stationMap = (\<lambda>(i, r).
     case expandRoute (svc i (stopIds r)) of
       Inl e \<Rightarrow> None
     | Inr expandedIds \<Rightarrow>
         if length (convert stationMap expandedIds []) > 1
         then Some \<lparr>pl_id = routeId idPrefix i r,
                    color = MAP_COLORS ! (i mod length MAP_COLORS),
                    points = convert stationMap expandedIds []\<rparr>
         else None)"

definition failedRoute :: "expansion_service \<Rightarrow> nat \<times> RouteInput \<Rightarrow> string option" where
  "failedRoute svc = (\<lambda>(i, r).
     case expandRoute (svc i (stopIds r)) of
       Inl e \<Rightarrow> Some (vehicleName i r @ MSG_ROUTE)
     | Inr expandedIds \<Rightarrow> None)"

subsection \<open>A worked scenario\<close>

text \<open>Three stations of the directory, an empty starting state, and two services: one
  that answers every request with the stops it was sent, one that expands the first
  route through station 15 and fails on the second.\<close>

definition exStations :: "Station list" where
  "exStations =
     [\<lparr>st_id = 10, st_name = ''Izmit'', lat = 40, lon = 29, is_active = Some True\<rparr>,
      \<lparr>st_id = 20, st_name = ''Gebze'', lat = 41, lon = 30, is_active = Some True\<rparr>,
      \<lparr>st_id = 15, st_name = ''Korfez'', lat = 40.5, lon = 29.5, is_active = Some True\<rparr>]"

definition exView :: RenderState where
  "exView = \<lparr>stations = [], polylines = [], loading = False, error = None\<rparr>"

definition echoService :: expansion_service where
  "echoService vIdx ids = HttpOk (Some \<lparr>expanded_station_ids = Some ids\<rparr>)"

definition secondFails :: expansion_service where
  "secondFails vIdx ids =
     (if vIdx = 1 then HttpNotOk None else HttpOk (Some \<lparr>expanded_station_ids = Some [10, 15, 20]\<rparr>))"

definition twoRoutes :: "RouteInput list" where
  "twoRoutes = [\<lparr>label = ''V1'', stopIds = [10, 20]\<rparr>, \<lparr>label = ''V2'', stopIds = [20, 10]\<rparr>]"

text \<open>The same two routes as a planning result of PlanningMap, and as the map data of
  UserRouteMap with the second label left empty.\<close>

definition exPlanning :: PlanningResponse where
  "exPlanning =
     \<lparr>date = ''2025-01-06'',
      vehicles =
        [\<lparr>vehicle_id = ''V1'',
           stops = [\<lparr>station_id = 10, station_name = ''Izmit''\<rparr>,
                    \<lparr>station_id = 20, station_name = ''Gebze''\<rparr>]\<rparr>,
         \<lparr>vehicle_id = ''V2'',
           stops = [\<lparr>station_id = 20, station_name = ''Gebze''\<rparr>,
                    \<lparr>station_id = 10, station_name = ''Izmit''\<rparr>]\<rparr>]\<rparr>"

definition exMapData :: UserRouteMapData where
  "exMapData =
     \<lparr>center = (40.5, 29.5),
      map_polylines =
        [\<lparr>vehicle_label = ''V1'', station_ids = [10, 20]\<rparr>,
         \<lparr>vehicle_label = [], station_ids = [20, 10]\<rparr>]\<rparr>"

text \<open>
  The index the specification gives a route for its colour: its position among the
  routes that are sent to the service (those before it with no stops are not counted).
\<close>

definition attemptIndex :: "RouteInput list \<Rightarrow> nat \<Rightarrow> nat" where
  "attemptIndex planning i = length (filter (\<lambda>r. stopIds r \<noteq> []) (take i planning))"

text \<open>More inputs: a first route without stops, a route of one stop, and a service
  whose answers are well-formed JSON without the \<^verbatim>\<open>expanded_station_ids\<close> field.\<close>

definition skipFirst :: "RouteInput list" where
  "skipFirst = [\<lparr>label = ''V1'', stopIds = []\<rparr>, \<lparr>label = ''V2'', stopIds = [10, 20]\<rparr>]"


definition noField :: expansion_service where
  "noField vIdx ids = HttpOk (Some \<lparr>expanded_station_ids = None\<rparr>)"

subsection \<open>The viewport\<close>

text \<open>
  A rectangle by its south-west and north-east corners. \<^verbatim>\<open>L.latLngBounds\<close> and
  \<^verbatim>\<open>getCenter\<close> belong to Leaflet, a dependency whose code is not among the sources;
  they are written here as Leaflet documents them: the constructor starts from no
  rectangle and extends it by one point after the other, each corner moving by
  \<^verbatim>\<open>Math.min\<close> and \<^verbatim>\<open>Math.max\<close>, and the centre is the midpoint of the corners.
  Leaflet computes that midpoint in binary floating point, so its centre can differ
  from the exact one of \<open>getCenter\<close> in the last digit; nothing below evaluates
  \<open>getCenter\<close>: the centres are only used where \<open>bounds\<close> is null.
\<close>

type_synonym LatLngBounds = "LatLngTuple \<times> LatLngTuple"

fun extendBounds :: "LatLngBounds option \<Rightarrow> LatLngTuple \<Rightarrow> LatLngBounds option" where
  "extendBounds None p = Some (p, p)"
| "extendBounds (Some (sw, ne)) p =
     Some ((min (fst p) (fst sw), min (snd p) (snd sw)),
           (max (fst p) (fst ne), max (snd p) (snd ne)))"

definition latLngBounds :: "LatLngTuple list \<Rightarrow> LatLngBounds option" where
  "latLngBounds latlngs = foldl extendBounds None latlngs"

definition getCenter :: "LatLngBounds \<Rightarrow> LatLngTuple" where
  "getCenter b = ((fst (fst b) + fst (snd b)) / 2, (snd (fst b) + snd (snd b)) / 2)"

text \<open>A number as a condition: zero is falsy (and a JSON number is never NaN).\<close>

definition truthy :: "real \<Rightarrow> bool" where
  "truthy x = (x \<noteq> 0)"

text \<open>The \<^verbatim>\<open>useMemo\<close> named \<^verbatim>\<open>bounds\<close>; \<open>None\<close> is \<^verbatim>\<open>null\<close>.\<close>

definition bounds :: "RenderState \<Rightarrow> LatLngBounds option" where
  "bounds view =
     (let allPoints = concat (map points (polylines view)) in
      if length allPoints = 0
      then (case find (\<lambda>s. truthy (lat s) \<and> truthy (lon s)) (stations view) of
              Some firstActive \<Rightarrow> latLngBounds [(lat firstActive, lon firstActive)]
            | None \<Rightarrow> None)
      else latLngBounds allPoints)"

text \<open>
  The \<^verbatim>\<open>center\<close> handed to the map, which is drawn at zoom 6 and fitted to \<open>bounds\<close>
  only when \<open>bounds\<close> is not null: PlanningMap's, then UserRouteMap's, which prefers
  the centre its input carries.
\<close>

definition planningCenter :: "RenderState \<Rightarrow> LatLngTuple" where
  "planningCenter view = (case bounds view of Some b \<Rightarrow> getCenter b | None \<Rightarrow> DEFAULT_CENTER)"

definition userCenter :: "UserRouteMapData option \<Rightarrow> RenderState \<Rightarrow> LatLngTuple" where
  "userCenter mapData view =
     (case mapData of
        Some d \<Rightarrow> center d
      | None \<Rightarrow> (case bounds view of Some b \<Rightarrow> getCenter b | None \<Rightarrow> DEFAULT_CENTER))"

text \<open>A rectangle covers a point; a rectangle lies inside another.\<close>

definition covers :: "LatLngBounds \<Rightarrow> LatLngTuple \<Rightarrow> bool" where
  "covers b p = (fst (fst b) \<le> fst p \<and> fst p \<le> fst (snd b)
               \<and> snd (fst b) \<le> snd p \<and> snd p \<le> snd (snd b))"

definition inside :: "LatLngBounds \<Rightarrow> LatLngBounds \<Rightarrow> bool" where
  "inside b b' = (covers b' (fst b) \<and> covers b' (snd b))"

text \<open>The fallback location as the specification words it: the first active location
  with valid coordinates.\<close>

definition firstActiveLocation :: "Station list \<Rightarrow> Station option" where
  "firstActiveLocation stationList =
     find (\<lambda>s. is_active s = Some True \<and> lat s \<noteq> 0 \<and> lon s \<noteq> 0) stationList"

text \<open>A directory whose first station is inactive, and a state with one drawn route.\<close>

definition inactiveFirst :: "Station list" where
  "inactiveFirst =
     [\<lparr>st_id = 1, st_name = ''Depo'', lat = 40, lon = 29, is_active = Some False\<rparr>,
      \<lparr>st_id = 2, st_name = ''Merkez'', lat = 41, lon = 30, is_active = Some True\<rparr>]"

definition drawnView :: RenderState where
  "drawnView =
     \<lparr>stations = exStations,
      polylines = [\<lparr>pl_id = ''V1'', color = ''#34d399'',
                    points = [(40, 29), (40.5, 29.5), (41, 30)]\<rparr>],
      loading = False, error = None\<rparr>"

subsection \<open>The effect: triggers, cancellation and late answers\<close>

text \<open>
  The \<^verbatim>\<open>useEffect\<close> starts \<^verbatim>\<open>buildRoutes\<close>, an async function: it hands control back
  at every \<^verbatim>\<open>await\<close> and goes on when the awaited request is answered. In between the
  input can change; React then runs the cleanup of the previous effect run
  (\<^verbatim>\<open>controller.abort()\<close>) and the effect again. The component is therefore a state
  machine with two kinds of events: a render with a new input, and the answer to the
  pending request of one cycle.

  Where a run of \<^verbatim>\<open>buildRoutes\<close> is suspended: at \<^verbatim>\<open>await fetchStations()\<close>, holding
  the input it closed over; at \<^verbatim>\<open>await expandRoute(stationIds)\<close> of route \<open>vIdx\<close>,
  holding \<^verbatim>\<open>stationList\<close>, the route, the routes after it and the loop's locals; or
  it has returned.
\<close>

datatype suspended =
    AwaitStations "RouteInput list"
  | AwaitExpand "Station list" nat RouteInput "RouteInput list" LoopState
  | Settled

text \<open>
  One effect run with a non-null input: its \<^verbatim>\<open>AbortController\<close>, of which only
  \<^verbatim>\<open>signal.aborted\<close> matters, and its run of \<^verbatim>\<open>buildRoutes\<close>, whose every request
  carries that signal.
\<close>

record Cycle =
  aborted :: bool
  suspended :: suspended

text \<open>
  The component: the React state, the cycles created so far (the position of a cycle
  in the list is the identity of its controller), \<^verbatim>\<open>abortRef.current\<close>, and the
  controller that the cleanup function of the last effect run will abort (none after
  a run with a null input, which returns no cleanup function).
\<close>

record Component =
  renderState :: RenderState
  cycles :: "Cycle list"
  abortRef :: "nat option"
  cleanup :: "nat option"

text \<open>An answer to a pending request, and the events of the machine.\<close>

datatype answer = StationsAnswer "Station list response" | ExpandAnswer "ExpandPayload response"

datatype event = Render "RouteInput list option" | Answer nat answer

text \<open>The component before its first effect run (the initial \<^verbatim>\<open>useState\<close> values).\<close>

definition mount :: Component where
  "mount = \<lparr>renderState = \<lparr>stations = [], polylines = [], loading = False, error = None\<rparr>,
            cycles = [], abortRef = None, cleanup = None\<rparr>"

text \<open>\<^verbatim>\<open>controller.abort()\<close> on the controller a reference holds, when it holds one.\<close>

definition abort :: "nat option \<Rightarrow> Component \<Rightarrow> Component" where
  "abort ref c =
     (case ref of
        None \<Rightarrow> c
      | Some k \<Rightarrow> c\<lparr>cycles := (cycles c)[k := (cycles c ! k)\<lparr>aborted := True\<rparr>]\<rparr>)"

text \<open>The loop header up to the next route with stops: its index, the route, and the
  routes after it.\<close>

fun nextRoute :: "RouteInput list \<Rightarrow> nat \<Rightarrow> (nat \<times> RouteInput \<times> RouteInput list) option" where
  "nextRoute [] vIdx = None"
| "nextRoute (r # rest) vIdx =
     (if stopIds r = [] then nextRoute rest (Suc vIdx) else Some (vIdx, r, rest))"

text \<open>
  The loop from index \<open>vIdx\<close> until it suspends at the next \<^verbatim>\<open>await expandRoute\<close>
  (whose request is logged), or falls out of the loop and completes the cycle.
\<close>

definition continueLoop ::
  "Station list \<Rightarrow> RouteInput list \<Rightarrow> nat \<Rightarrow> LoopState \<Rightarrow> RenderState \<Rightarrow> RenderState \<times> suspended" where
  "continueLoop stationList rest vIdx acc v =
     (case nextRoute rest vIdx of
        Some (j, r, rest') \<Rightarrow>
          (v, AwaitExpand stationList j r rest' (acc\<lparr>requests := requests acc @ [(j, stopIds r)]\<rparr>))
      | None \<Rightarrow> (completeCycle stationList acc v, Settled))"

text \<open>
  A suspended run goes on with the answer to its pending request. When its controller
  has been aborted in the meantime, the request has been rejected with an
  \<^verbatim>\<open>AbortError\<close> whatever the service answered: the \<^verbatim>\<open>catch\<close> block that receives it
  finds \<^verbatim>\<open>controller.signal.aborted\<close> and returns, and \<^verbatim>\<open>finally\<close> skips
  \<^verbatim>\<open>setLoading(false)\<close>. An answer the run is not waiting for is dropped.
\<close>

fun resumeCycle ::
  "string \<Rightarrow> bool \<Rightarrow> suspended \<Rightarrow> answer \<Rightarrow> RenderState \<Rightarrow> RenderState \<times> suspended" where
  "resumeCycle idPrefix isAborted (AwaitStations planning) (StationsAnswer resp) v =
     (if isAborted then (v, Settled)
      else case fetchStations resp of
             Inl e \<Rightarrow> (failCycle v, Settled)
           | Inr stationList \<Rightarrow> continueLoop stationList planning 0 emptyLoop v)"
| "resumeCycle idPrefix isAborted (AwaitExpand stationList vIdx r rest acc) (ExpandAnswer resp) v =
     (if isAborted then (v, Settled)
      else continueLoop stationList rest (Suc vIdx)
             (afterExpand idPrefix (mkStationMap stationList) vIdx r resp acc) v)"
| "resumeCycle idPrefix isAborted s a v = (v, s)"

text \<open>Cycle \<open>k\<close> hands control back: the React state it has written, and where it now
  waits.\<close>

definition yield :: "nat \<Rightarrow> RenderState \<times> suspended \<Rightarrow> Component \<Rightarrow> Component" where
  "yield k vs c =
     c\<lparr>renderState := fst vs, cycles := (cycles c)[k := (cycles c ! k)\<lparr>suspended := snd vs\<rparr>]\<rparr>"

text \<open>
  One event. A render first runs the cleanup of the previous effect run. With a null
  input the effect then empties three of the four state variables and returns. With
  an input it aborts \<^verbatim>\<open>abortRef.current\<close>, creates the next controller, and starts
  \<^verbatim>\<open>buildRoutes\<close>, which runs up to \<^verbatim>\<open>await fetchStations()\<close>.
\<close>

fun step :: "string \<Rightarrow> Component \<Rightarrow> event \<Rightarrow> Component" where
  "step idPrefix c (Render None) =
     (let c1 = abort (cleanup c) c in
      c1\<lparr>renderState := (renderState c1)\<lparr>stations := [], polylines := [], error := None\<rparr>, cleanup := None\<rparr>)"
| "step idPrefix c (Render (Some planning)) =
     (let c1 = abort (cleanup c) c;
          c2 = abort (abortRef c1) c1;
          controller = length (cycles c2)
      in c2\<lparr>renderState := beginCycle (renderState c2),
            cycles := cycles c2 @ [\<lparr>aborted = False, suspended = AwaitStations planning\<rparr>],
            abortRef := Some controller,
            cleanup := Some controller\<rparr>)"
| "step idPrefix c (Answer k a) =
     (if k < length (cycles c)
      then yield k (resumeCycle idPrefix (aborted (cycles c ! k)) (suspended (cycles c ! k)) a
                      (renderState c)) c
      else c)"

text \<open>A sequence of events, from a given state of the component.\<close>

definition run :: "string \<Rightarrow> Component \<Rightarrow> event list \<Rightarrow> Component" where
  "run idPrefix c evs = foldl (step idPrefix) c evs"

text \<open>Whether an event is an answer, and the cycle an answer belongs to.\<close>

fun isAnswer :: "event \<Rightarrow> bool" where
  "isAnswer (Render p) = False"
| "isAnswer (Answer k a) = True"

fun cycleOf :: "event \<Rightarrow> nat option" where
  "cycleOf (Render p) = None"
| "cycleOf (Answer k a) = Some k"

text \<open>
  The answers cycle \<open>k\<close> receives when the directory answers \<open>dirResp\<close> and the
  expansion service is \<open>svc\<close>: one to \<^verbatim>\<open>GET /stations\<close>, then one per expansion
  request in the order the requests are issued.
\<close>

definition answers ::
  "string \<Rightarrow> nat \<Rightarrow> Station list response \<Rightarrow> expansion_service \<Rightarrow> RouteInput list \<Rightarrow> event list" where
  "answers idPrefix k dirResp svc planning =
     Answer k (StationsAnswer dirResp) #
     map (\<lambda>(i, ids). Answer k (ExpandAnswer (svc i ids))) (expandCalls idPrefix dirResp svc planning)"

text \<open>
  A history in which a first cycle has its directory and waits for its first expansion;
  then, after a render with one route, the answers to both cycles interleaved, the
  late one of the first cycle between those of the second.
\<close>

definition oneRoute :: "RouteInput list" where
  "oneRoute = [\<lparr>label = ''V1'', stopIds = [10, 20]\<rparr>]"

definition exHistory :: "event list" where
  "exHistory = [Render (Some twoRoutes), Answer 0 (StationsAnswer (HttpOk (Some exStations)))]"

definition exLater :: "event list" where
  "exLater =
     [Answer 1 (StationsAnswer (HttpOk (Some exStations))),
      Answer 0 (ExpandAnswer (HttpOk (Some \<lparr>expanded_station_ids = Some [10, 20]\<rparr>))),
      Answer 1 (ExpandAnswer (HttpOk (Some \<lparr>expanded_station_ids = Some [10, 15, 20]\<rparr>)))]"

section \<open>Properties\<close>

subsection \<open>The polyline builder\<close>

lemma subseq_remdups_adj_self: "subseq (remdups_adj xs) xs"
  by (induction xs rule: remdups_adj.induct) auto

lemma convert_after_last:
  "convert stationMap ids (pts @ [a]) =
     pts @ remdups_adj (a # map (\<lambda>st. (lat st, lon st)) (List.map_filter stationMap ids))"
proof (induction ids arbitrary: pts a)
  case Nil
  show ?case by simp
next
  case (Cons sid rest)
  show ?case
  proof (cases "stationMap sid")
    case None
    then show ?thesis using Cons.IH [of pts a] by simp
  next
    case (Some st)
    show ?thesis
    proof (cases "a = (lat st, lon st)")
      case True
      then show ?thesis using Some Cons.IH [of pts a] by simp
    next
      case False
      then have "fst a \<noteq> lat st \<or> snd a \<noteq> lon st"
        by (auto simp: prod_eq_iff)
      then show ?thesis using Some False Cons.IH [of "pts @ [a]" "(lat st, lon st)"]
        by simp
    qed
  qed
qed

lemma convert_from_empty:
  "convert stationMap ids [] =
     remdups_adj (map (\<lambda>st. (lat st, lon st)) (List.map_filter stationMap ids))"
proof (induction ids)
  case Nil
  show ?case by simp
next
  case (Cons sid rest)
  show ?case
  proof (cases "stationMap sid")
    case None
    then show ?thesis using Cons.IH by simp
  next
    case (Some st)
    then show ?thesis using convert_after_last [of stationMap rest "[]" "(lat st, lon st)"]
      by simp
  qed
qed

text \<open>
  C6. The points of a route are the coordinates of its expanded identifiers, looked up
  in the order the expansion service returned them: an identifier the directory does
  not know is skipped and the walk goes on, a point equal to the one before it is
  dropped, and nothing is reordered (the result is a subsequence of the looked-up
  coordinates, with no two neighbours equal).
\<close>

theorem C6_points_follow_expansion_order:
  "convert stationMap expandedIds [] =
     remdups_adj (map (\<lambda>st. (lat st, lon st)) (List.map_filter stationMap expandedIds))
   \<and> subseq (convert stationMap expandedIds [])
       (map (\<lambda>st. (lat st, lon st)) (List.map_filter stationMap expandedIds))
   \<and> distinct_adj (convert stationMap expandedIds [])"
  by (simp add: convert_from_empty subseq_remdups_adj_self)


subsection \<open>What the route loop computes\<close>

lemma afterExpand_fields:
  "routes (afterExpand idPrefix m i r (svc i (stopIds r)) acc) =
     routes acc @ (case renderedRoute idPrefix svc m (i, r) of None \<Rightarrow> [] | Some p \<Rightarrow> [p])"
  "routeErrors (afterExpand idPrefix m i r (svc i (stopIds r)) acc) =
     routeErrors acc @ (case failedRoute svc (i, r) of None \<Rightarrow> [] | Some e \<Rightarrow> [e])"
  "hasError (afterExpand idPrefix m i r (svc i (stopIds r)) acc) =
     (hasError acc \<or> failedRoute svc (i, r) \<noteq> None)"
  "requests (afterExpand idPrefix m i r (svc i (stopIds r)) acc) = requests acc"
  by (auto simp: afterExpand_def pushRoute_def recordFailure_def renderedRoute_def
      failedRoute_def Let_def split: sum.splits)

lemma attempted_Nil: "attempted i [] = []"
  by (simp add: attempted_def)

lemma attempted_Cons:
  "attempted i (r # rest) =
     (if stopIds r = [] then attempted (Suc i) rest else (i, r) # attempted (Suc i) rest)"
  by (simp add: attempted_def)

lemma routeLoop_routes:
  "routes (routeLoop idPrefix svc m planning i acc) =
     routes acc @ List.map_filter (renderedRoute idPrefix svc m) (attempted i planning)"
proof (induction planning arbitrary: i acc)
  case Nil
  show ?case by (simp add: attempted_Nil)
next
  case (Cons r rest)
  show ?case
    by (cases "renderedRoute idPrefix svc m (i, r)")
       (simp_all add: Cons.IH attempted_Cons afterExpand_fields)
qed

lemma routeLoop_routeErrors:
  "routeErrors (routeLoop idPrefix svc m planning i acc) =
     routeErrors acc @ List.map_filter (failedRoute svc) (attempted i planning)"
proof (induction planning arbitrary: i acc)
  case Nil
  show ?case by (simp add: attempted_Nil)
next
  case (Cons r rest)
  show ?case
    by (cases "failedRoute svc (i, r)")
       (simp_all add: Cons.IH attempted_Cons afterExpand_fields)
qed

lemma routeLoop_hasError:
  "hasError (routeLoop idPrefix svc m planning i acc) =
     (hasError acc \<or> List.map_filter (failedRoute svc) (attempted i planning) \<noteq> [])"
proof (induction planning arbitrary: i acc)
  case Nil
  show ?case by (simp add: attempted_Nil)
next
  case (Cons r rest)
  show ?case
    by (cases "failedRoute svc (i, r)")
       (simp_all add: Cons.IH attempted_Cons afterExpand_fields)
qed

lemma routeLoop_requests:
  "requests (routeLoop idPrefix svc m planning i acc) =
     requests acc @ map (\<lambda>(j, r). (j, stopIds r)) (attempted i planning)"
proof (induction planning arbitrary: i acc)
  case Nil
  show ?case by (simp add: attempted_Nil)
next
  case (Cons r rest)
  show ?case
    by (simp add: Cons.IH attempted_Cons afterExpand_fields)
qed

lemma set_map_filter: "y \<in> set (List.map_filter f xs) \<longleftrightarrow> (\<exists>x \<in> set xs. f x = Some y)"
  by (induction xs) (auto split: option.splits)


lemma in_attempted:
  "(j, r) \<in> set (attempted i planning) \<longleftrightarrow>
     i \<le> j \<and> j < i + length planning \<and> r = planning ! (j - i) \<and> stopIds r \<noteq> []"
  by (auto simp: attempted_def in_set_enumerate_eq)

subsection \<open>An uncancelled cycle, field by field\<close>

lemma map_filter_filter:
  "List.map_filter f (filter P xs) = List.map_filter (\<lambda>x. if P x then f x else None) xs"
  by (induction xs) (auto split: option.splits)

lemma buildRoutes_polylines:
  "fetchStations dirResp = Inr stationList \<Longrightarrow>
   polylines (buildRoutes idPrefix dirResp svc planning view) =
     List.map_filter (renderedRoute idPrefix svc (mkStationMap stationList)) (attempted 0 planning)"
  by (simp add: buildRoutes_def completeCycle_def Let_def routeLoop_routes emptyLoop_def)

lemma buildRoutes_error:
  "fetchStations dirResp = Inr stationList \<Longrightarrow>
   error (buildRoutes idPrefix dirResp svc planning view) =
     (if List.map_filter (failedRoute svc) (attempted 0 planning) = [] then None
      else Some (warningText (List.map_filter (failedRoute svc) (attempted 0 planning))))"
  by (simp add: buildRoutes_def completeCycle_def beginCycle_def Let_def routeLoop_routeErrors
      routeLoop_hasError emptyLoop_def)

lemma buildRoutes_stations:
  "fetchStations dirResp = Inr stationList \<Longrightarrow>
   stations (buildRoutes idPrefix dirResp svc planning view) = stationList"
  by (simp add: buildRoutes_def completeCycle_def Let_def)

lemma buildRoutes_failed:
  "fetchStations dirResp = Inl e \<Longrightarrow>
   buildRoutes idPrefix dirResp svc planning view =
     view\<lparr>polylines := [], error := Some MSG_NO_PATH, loading := False\<rparr>"
  by (simp add: buildRoutes_def failCycle_def beginCycle_def)

lemma sublist_join: "x \<in> set xs \<Longrightarrow> sublist x (join sep xs)"
proof (induction sep xs rule: join.induct)
  case (1 sep)
  then show ?case by simp
next
  case (2 sep y)
  then show ?case by simp
next
  case (3 sep y z zs)
  show ?case
  proof (cases "x = y")
    case True
    then show ?thesis by (simp add: sublist_def) (metis append_Nil)
  next
    case False
    then have "sublist x (join sep (z # zs))" using 3 by simp
    then obtain ps ss where "join sep (z # zs) = ps @ x @ ss" by (auto simp: sublist_def)
    then have "join sep (y # z # zs) = (y @ sep @ ps) @ x @ ss" by simp
    then show ?thesis unfolding sublist_def by blast
  qed
qed

lemma sublist_warningText: "x \<in> set errs \<Longrightarrow> sublist x (warningText errs)"
proof -
  assume "x \<in> set errs"
  then obtain ps ss where "join '', '' errs = ps @ x @ ss"
    using sublist_join [of x errs "'', ''"] by (auto simp: sublist_def)
  then have "warningText errs = (MSG_NO_PATH @ '' ('' @ ps) @ x @ (ss @ '')'')"
    by (simp add: warningText_def)
  then show ?thesis unfolding sublist_def by blast
qed

lemma sublist_label_vehicleName: "sublist (label r) (vehicleName i r @ MSG_ROUTE)"
proof (cases "label r = []")
  case True
  then show ?thesis by simp
next
  case False
  then have "vehicleName i r @ MSG_ROUTE = [] @ label r @ MSG_ROUTE"
    by (simp add: vehicleName_def orElse_def)
  then show ?thesis unfolding sublist_def by blast
qed

text \<open>
  C1. In a cycle whose directory fetch succeeds, the failure of one route's expansion
  stays with that route. If route \<open>a\<close> expands to at least two points and route \<open>b\<close>
  fails, the final state holds the polyline of \<open>a\<close>; the warning is set and contains
  the failure entry of \<open>b\<close>, hence its label; and the requests issued are exactly one
  per route with stops, in input order, whatever any of them answered.
\<close>

theorem C1_route_failure_is_isolated:
  assumes dir: "fetchStations dirResp = Inr stationList"
    and a: "a < length planning" "stopIds (planning ! a) \<noteq> []"
      "expandRoute (svc a (stopIds (planning ! a))) = Inr idsA"
      "2 \<le> length (convert (mkStationMap stationList) idsA [])"
    and b: "b < length planning" "stopIds (planning ! b) \<noteq> []"
      "expandRoute (svc b (stopIds (planning ! b))) = Inl e"
  shows "\<lparr>pl_id = routeId idPrefix a (planning ! a),
          color = MAP_COLORS ! (a mod length MAP_COLORS),
          points = convert (mkStationMap stationList) idsA []\<rparr>
           \<in> set (polylines (buildRoutes idPrefix dirResp svc planning view))
       \<and> (\<exists>w. error (buildRoutes idPrefix dirResp svc planning view) = Some w
              \<and> sublist (vehicleName b (planning ! b) @ MSG_ROUTE) w
              \<and> sublist (label (planning ! b)) w)
       \<and> expandCalls idPrefix dirResp svc planning =
           map (\<lambda>(i, r). (i, stopIds r))
             (filter (\<lambda>(i, r). stopIds r \<noteq> []) (enumerate 0 planning))"
proof -
  let ?m = "mkStationMap stationList"
  let ?errs = "List.map_filter (failedRoute svc) (attempted 0 planning)"
  have inA: "(a, planning ! a) \<in> set (attempted 0 planning)"
    and inB: "(b, planning ! b) \<in> set (attempted 0 planning)"
    using a b by (simp_all add: in_attempted)
  have "renderedRoute idPrefix svc ?m (a, planning ! a) =
      Some \<lparr>pl_id = routeId idPrefix a (planning ! a),
            color = MAP_COLORS ! (a mod length MAP_COLORS),
            points = convert ?m idsA []\<rparr>"
    using a by (simp add: renderedRoute_def)
  then have first: "\<lparr>pl_id = routeId idPrefix a (planning ! a),
          color = MAP_COLORS ! (a mod length MAP_COLORS),
          points = convert ?m idsA []\<rparr>
           \<in> set (polylines (buildRoutes idPrefix dirResp svc planning view))"
    using inA by (auto simp: buildRoutes_polylines [OF dir] set_map_filter)
  have "failedRoute svc (b, planning ! b) = Some (vehicleName b (planning ! b) @ MSG_ROUTE)"
    using b by (simp add: failedRoute_def)
  then have inErrs: "vehicleName b (planning ! b) @ MSG_ROUTE \<in> set ?errs"
    using inB by (auto simp: set_map_filter)
  then have nonempty: "?errs \<noteq> []" by auto
  have err: "error (buildRoutes idPrefix dirResp svc planning view) = Some (warningText ?errs)"
    using nonempty by (simp add: buildRoutes_error [OF dir])
  have sub1: "sublist (vehicleName b (planning ! b) @ MSG_ROUTE) (warningText ?errs)"
    using inErrs by (rule sublist_warningText)
  have sub2: "sublist (label (planning ! b)) (warningText ?errs)"
    using sublist_label_vehicleName sub1 by (rule sublist_order.order_trans)
  have calls: "expandCalls idPrefix dirResp svc planning =
           map (\<lambda>(i, r). (i, stopIds r))
             (filter (\<lambda>(i, r). stopIds r \<noteq> []) (enumerate 0 planning))"
    by (simp add: expandCalls_def dir routeLoop_requests emptyLoop_def attempted_def)
  show ?thesis using first err sub1 sub2 calls by blast
qed


lemma exPlanning_routes: "planningRoutes exPlanning = twoRoutes"
  by (simp add: planningRoutes_def exPlanning_def twoRoutes_def)

lemma exMap_simps:
  "mkStationMap exStations 10 =
     Some \<lparr>st_id = 10, st_name = ''Izmit'', lat = 40, lon = 29, is_active = Some True\<rparr>"
  "mkStationMap exStations 20 =
     Some \<lparr>st_id = 20, st_name = ''Gebze'', lat = 41, lon = 30, is_active = Some True\<rparr>"
  "mkStationMap exStations 15 =
     Some \<lparr>st_id = 15, st_name = ''Korfez'', lat = 40.5, lon = 29.5, is_active = Some True\<rparr>"
  by (simp_all add: mkStationMap_def exStations_def)

lemma ex_convert:
  "convert (mkStationMap exStations) [10, 15, 20] [] = [(40, 29), (40.5, 29.5), (41, 30)]"
  by (simp add: exMap_simps Let_def)

text \<open>C1, at an input: PlanningMap on two routes, the second expansion refused.\<close>

theorem C1_witness:
  "\<lparr>pl_id = ''V1'', color = ''#34d399'', points = [(40, 29), (40.5, 29.5), (41, 30)]\<rparr>
     \<in> set (polylines (buildRoutes PLANNING_PREFIX (HttpOk (Some exStations)) secondFails (planningRoutes exPlanning) exView))
   \<and> (\<exists>w. error (buildRoutes PLANNING_PREFIX (HttpOk (Some exStations)) secondFails (planningRoutes exPlanning) exView) = Some w
          \<and> sublist ''V2'' w)
   \<and> expandCalls PLANNING_PREFIX (HttpOk (Some exStations)) secondFails (planningRoutes exPlanning) =
       [(0, [10, 20]), (1, [20, 10])]"
proof -
  have dir: "fetchStations (HttpOk (Some exStations)) = Inr exStations" by simp
  have a: "0 < length twoRoutes" "stopIds (twoRoutes ! 0) \<noteq> []"
    "expandRoute (secondFails 0 (stopIds (twoRoutes ! 0))) = Inr [10, 15, 20]"
    by (simp_all add: twoRoutes_def secondFails_def)
  have pts: "2 \<le> length (convert (mkStationMap exStations) [10, 15, 20] [])"
    by (simp only: ex_convert) simp
  have b: "1 < length twoRoutes" "stopIds (twoRoutes ! 1) \<noteq> []"
    "expandRoute (secondFails 1 (stopIds (twoRoutes ! 1))) = Inl (HttpError MSG_EXPAND)"
    by (simp_all add: twoRoutes_def secondFails_def detailOr_def orElse_def MSG_EXPAND_def)
  have "\<lparr>pl_id = ''V1'', color = ''#34d399'', points = [(40, 29), (40.5, 29.5), (41, 30)]\<rparr>
     \<in> set (polylines (buildRoutes PLANNING_PREFIX (HttpOk (Some exStations)) secondFails twoRoutes exView))
   \<and> (\<exists>w. error (buildRoutes PLANNING_PREFIX (HttpOk (Some exStations)) secondFails twoRoutes exView) = Some w
          \<and> sublist ''V2'' w)
   \<and> expandCalls PLANNING_PREFIX (HttpOk (Some exStations)) secondFails twoRoutes =
       [(0, [10, 20]), (1, [20, 10])]"
    using C1_route_failure_is_isolated [where svc = secondFails and a = 0 and b = 1
        and idPrefix = PLANNING_PREFIX and view = exView, OF dir a pts b]
    unfolding ex_convert
    by (auto simp add: twoRoutes_def routeId_def vehicleName_def orElse_def MAP_COLORS_def)
  then show ?thesis by (simp only: exPlanning_routes)
qed

subsection \<open>Colours\<close>

lemma ex_convert2:
  "convert (mkStationMap exStations) [10, 20] [] = [(40, 29), (41, 30)]"
  "convert (mkStationMap exStations) [20, 10] [] = [(41, 30), (40, 29)]"
  "convert (mkStationMap exStations) [10] [] = [(40, 29)]"
  by (simp_all add: exMap_simps Let_def)

lemma ex_dir: "fetchStations (HttpOk (Some exStations)) = Inr exStations"
  by simp

text \<open>
  C3, as the specification states it, fails: the colour index is the loop variable
  \<^verbatim>\<open>vIdx\<close>, which also advances over a route that is passed over. With a first route
  without stops, the second route is drawn in the second colour of the palette, not
  in the first, which is what its index among the attempted routes would give.
\<close>

theorem C3_counterexample:
  "polylines (buildRoutes PLANNING_PREFIX (HttpOk (Some exStations)) echoService skipFirst exView) =
     [\<lparr>pl_id = ''V2'', color = MAP_COLORS ! 1, points = [(40, 29), (41, 30)]\<rparr>]
   \<and> MAP_COLORS ! 1 \<noteq> MAP_COLORS ! (attemptIndex skipFirst 1 mod length MAP_COLORS)"
proof -
  have "polylines (buildRoutes PLANNING_PREFIX (HttpOk (Some exStations)) echoService skipFirst exView) =
     [\<lparr>pl_id = ''V2'', color = MAP_COLORS ! 1, points = [(40, 29), (41, 30)]\<rparr>]"
    unfolding buildRoutes_polylines [OF ex_dir]
    by (simp add: skipFirst_def attempted_Cons attempted_Nil renderedRoute_def echoService_def
        exMap_simps Let_def routeId_def orElse_def MAP_COLORS_def)
  moreover have "MAP_COLORS ! 1 \<noteq> MAP_COLORS ! (attemptIndex skipFirst 1 mod length MAP_COLORS)"
    by (simp add: attemptIndex_def skipFirst_def MAP_COLORS_def)
  ultimately show ?thesis by simp
qed

text \<open>
  C3, amended. The colour of a rendered polyline is \<open>palette[i mod palette.length]\<close>
  where \<open>i\<close> is the position of its route in the input list, every route counted,
  also one that is passed over for having no stops. The polylines are a function of
  the input order and the service answers alone, so a repeated render with the same
  input gives the same colours.
\<close>

theorem C3_color_by_input_position:
  assumes "fetchStations dirResp = Inr stationList"
  shows "polylines (buildRoutes idPrefix dirResp svc planning view) =
     List.map_filter (\<lambda>(i, r).
        if stopIds r = [] then None
        else case expandRoute (svc i (stopIds r)) of
          Inl e \<Rightarrow> None
        | Inr expandedIds \<Rightarrow>
            if 2 \<le> length (convert (mkStationMap stationList) expandedIds [])
            then Some \<lparr>pl_id = routeId idPrefix i r,
                       color = MAP_COLORS ! (i mod length MAP_COLORS),
                       points = convert (mkStationMap stationList) expandedIds []\<rparr>
            else None)
       (enumerate 0 planning)"
proof -
  have "(\<lambda>x. if (case x of (i, r) \<Rightarrow> stopIds r \<noteq> [])
            then renderedRoute idPrefix svc (mkStationMap stationList) x else None) =
        (\<lambda>(i, r).
        if stopIds r = [] then None
        else case expandRoute (svc i (stopIds r)) of
          Inl e \<Rightarrow> None
        | Inr expandedIds \<Rightarrow>
            if 2 \<le> length (convert (mkStationMap stationList) expandedIds [])
            then Some \<lparr>pl_id = routeId idPrefix i r,
                       color = MAP_COLORS ! (i mod length MAP_COLORS),
                       points = convert (mkStationMap stationList) expandedIds []\<rparr>
            else None)"
    by (auto simp: fun_eq_iff renderedRoute_def split: sum.splits)
  then show ?thesis
    by (simp add: buildRoutes_polylines [OF assms] attempted_def map_filter_filter)
qed

text \<open>C3 as amended, at an input: UserRouteMap on two routes with stops takes the first
  two colours in input order, and the fallback id for the route without a label.\<close>

theorem C3_witness:
  "polylines (buildRoutes USER_PREFIX (HttpOk (Some exStations)) echoService
       (userRoutes exMapData) exView) =
     [\<lparr>pl_id = ''V1'', color = ''#34d399'', points = [(40, 29), (41, 30)]\<rparr>,
      \<lparr>pl_id = ''route-2'', color = ''#22d3ee'', points = [(41, 30), (40, 29)]\<rparr>]"
  unfolding C3_color_by_input_position [OF ex_dir]
  by (simp add: userRoutes_def exMapData_def echoService_def exMap_simps Let_def routeId_def
      orElse_def MAP_COLORS_def USER_PREFIX_def string_of_nat.simps digit_def)

subsection \<open>Routes that are dropped\<close>







lemma enumerate_update:
  "i < length xs \<Longrightarrow> enumerate n (xs[i := y]) = (enumerate n xs)[i := (n + i, y)]"
proof (induction xs arbitrary: n i)
  case Nil
  then show ?case by simp
next
  case (Cons x xs)
  then show ?case by (cases i) simp_all
qed

lemma map_filter_update_None:
  "i < length xs \<Longrightarrow> f (xs ! i) = None \<Longrightarrow> f y = None \<Longrightarrow>
   List.map_filter f (xs[i := y]) = List.map_filter f xs"
proof (induction xs arbitrary: i)
  case Nil
  then show ?case by simp
next
  case (Cons x xs)
  then show ?case by (cases i) (auto split: option.splits)
qed

lemma attempted_skip:
  assumes "i < length planning" and "f (i, planning ! i) = None"
  shows "List.map_filter f (attempted 0 (planning[i := (planning ! i)\<lparr>stopIds := []\<rparr>])) =
         List.map_filter f (attempted 0 planning)"
proof -
  let ?g = "\<lambda>x. if (case x of (j, r) \<Rightarrow> stopIds r \<noteq> []) then f x else None"
  have "List.map_filter ?g ((enumerate 0 planning)[i := (0 + i, (planning ! i)\<lparr>stopIds := []\<rparr>)]) =
        List.map_filter ?g (enumerate 0 planning)"
    using assms by (intro map_filter_update_None) (simp_all add: nth_enumerate_eq)
  then show ?thesis
    using assms(1) by (simp add: attempted_def map_filter_filter enumerate_update)
qed

lemma completeCycle_cong:
  "routes a = routes b \<Longrightarrow> routeErrors a = routeErrors b \<Longrightarrow> hasError a = hasError b \<Longrightarrow>
   completeCycle stationList a view = completeCycle stationList b view"
  by (simp add: completeCycle_def Let_def)

text \<open>
  C9. An ok response whose body has no (or a falsy) \<^verbatim>\<open>expanded_station_ids\<close> makes
  \<^verbatim>\<open>expandRoute\<close> return the empty list. The loop state is then left as it was (no
  polyline is pushed, no failure recorded), and the whole cycle ends in the state it
  would have reached had the route had no stops at all.
\<close>

theorem C9_missing_field_is_an_empty_expansion:
  assumes "i < length planning"
    and "svc i (stopIds (planning ! i)) = HttpOk (Some payload)"
    and "expanded_station_ids payload = None"
  shows "expandRoute (svc i (stopIds (planning ! i))) = Inr []
       \<and> afterExpand idPrefix stationMap i (planning ! i) (svc i (stopIds (planning ! i))) acc = acc
       \<and> buildRoutes idPrefix dirResp svc planning view =
           buildRoutes idPrefix dirResp svc (planning[i := (planning ! i)\<lparr>stopIds := []\<rparr>]) view"
proof -
  have ex: "expandRoute (svc i (stopIds (planning ! i))) = Inr []"
    using assms by simp
  have step: "afterExpand idPrefix stationMap i (planning ! i) (svc i (stopIds (planning ! i))) acc = acc"
    by (simp add: afterExpand_def ex pushRoute_def)
  have "buildRoutes idPrefix dirResp svc planning view =
        buildRoutes idPrefix dirResp svc (planning[i := (planning ! i)\<lparr>stopIds := []\<rparr>]) view"
  proof (cases "fetchStations dirResp")
    case (Inl e)
    then show ?thesis by (simp add: buildRoutes_def)
  next
    case (Inr stationList)
    have r: "renderedRoute idPrefix svc (mkStationMap stationList) (i, planning ! i) = None"
      by (simp add: renderedRoute_def ex)
    have f: "failedRoute svc (i, planning ! i) = None"
      by (simp add: failedRoute_def ex)
    show ?thesis
      unfolding buildRoutes_def Inr Let_def sum.case
      by (intro completeCycle_cong)
         (simp_all add: routeLoop_routes routeLoop_routeErrors routeLoop_hasError
            attempted_skip [where f = "renderedRoute idPrefix svc (mkStationMap stationList)",
              OF assms(1) r]
            attempted_skip [where f = "failedRoute svc", OF assms(1) f])
  qed
  with ex step show ?thesis by simp
qed

text \<open>C9, at an input: both routes answered without the field, nothing drawn, no
  warning.\<close>

theorem C9_witness:
  "expandRoute (noField 0 [10, 20]) = Inr []
   \<and> polylines (buildRoutes PLANNING_PREFIX (HttpOk (Some exStations)) noField twoRoutes exView) = []
   \<and> error (buildRoutes PLANNING_PREFIX (HttpOk (Some exStations)) noField twoRoutes exView) = None"
proof -
  have one: "buildRoutes PLANNING_PREFIX (HttpOk (Some exStations)) noField twoRoutes exView =
      buildRoutes PLANNING_PREFIX (HttpOk (Some exStations)) noField
        (twoRoutes[0 := (twoRoutes ! 0)\<lparr>stopIds := []\<rparr>]) exView"
    and ex: "expandRoute (noField 0 (stopIds (twoRoutes ! 0))) = Inr []"
    using C9_missing_field_is_an_empty_expansion [where svc = noField and i = 0
        and planning = twoRoutes and payload = "\<lparr>expanded_station_ids = None\<rparr>"]
    by (simp_all add: twoRoutes_def noField_def)
  show ?thesis
    using ex unfolding one
    by (simp add: twoRoutes_def noField_def buildRoutes_def completeCycle_def beginCycle_def
        afterExpand_def pushRoute_def emptyLoop_def exView_def)
qed

subsection \<open>A cycle whose directory fetch fails\<close>

text \<open>
  C10. A cycle that ends in the outer \<^verbatim>\<open>catch\<close> leaves \<open>stations\<close> as the previous
  cycle left them; \<open>polylines\<close> is emptied when the cycle starts, which does not touch
  \<open>stations\<close> either; \<open>stations\<close> is replaced only by a cycle whose directory fetch
  succeeded, and then by the fetched list.
\<close>

theorem C10_failed_cycle_keeps_locations:
  "(fetchStations dirResp = Inl e \<longrightarrow>
      buildRoutes idPrefix dirResp svc planning view =
        view\<lparr>polylines := [], error := Some MSG_NO_PATH, loading := False\<rparr>
      \<and> stations (buildRoutes idPrefix dirResp svc planning view) = stations view)
   \<and> stations (beginCycle view) = stations view
   \<and> polylines (beginCycle view) = []
   \<and> (fetchStations dirResp = Inr stationList \<longrightarrow>
        stations (buildRoutes idPrefix dirResp svc planning view) = stationList)"
  by (simp add: buildRoutes_failed buildRoutes_stations beginCycle_def)

text \<open>C10, at an input: a rejected fetch keeps the three stations, a fetched empty list
  replaces them.\<close>

theorem C10_witness:
  "stations (buildRoutes PLANNING_PREFIX FetchRejected echoService twoRoutes
       (exView\<lparr>stations := exStations\<rparr>)) = exStations
   \<and> polylines (buildRoutes PLANNING_PREFIX FetchRejected echoService twoRoutes
       (exView\<lparr>stations := exStations\<rparr>)) = []
   \<and> stations (buildRoutes PLANNING_PREFIX (HttpOk (Some [])) echoService twoRoutes
       (exView\<lparr>stations := exStations\<rparr>)) = []"
  using C10_failed_cycle_keeps_locations [of FetchRejected NetworkError PLANNING_PREFIX
      echoService twoRoutes "exView\<lparr>stations := exStations\<rparr>" "[]"]
    C10_failed_cycle_keeps_locations [of "HttpOk (Some [])" NetworkError PLANNING_PREFIX
      echoService twoRoutes "exView\<lparr>stations := exStations\<rparr>" "[]"]
  by simp

text \<open>
  C4. When the directory answers with an error status, no expansion request is issued,
  \<open>polylines\<close> is empty and the warning is set. Its text, however, is not about the
  directory: \<^verbatim>\<open>fetchStations\<close> throws "Istasyonlar alinamadi." (the stations could
  not be fetched), the outer \<^verbatim>\<open>catch\<close> drops that error and shows the text about
  missing roads between stations, the same text every per-route warning starts with.
\<close>

theorem C4_directory_failure_shows_the_route_message:
  "buildRoutes idPrefix (HttpNotOk None) svc planning view =
     view\<lparr>polylines := [], error := Some MSG_NO_PATH, loading := False\<rparr>
   \<and> expandCalls idPrefix (HttpNotOk None) svc planning = []
   \<and> fetchStations (HttpNotOk None) = Inl (HttpError MSG_STATIONS)
   \<and> MSG_NO_PATH \<noteq> MSG_STATIONS
   \<and> prefix MSG_NO_PATH (warningText errs)"
  by (simp add: buildRoutes_failed expandCalls_def detailOr_def orElse_def MSG_STATIONS_def
      MSG_NO_PATH_def warningText_def)

subsection \<open>The viewport\<close>

lemma foldl_extend:
  "foldl extendBounds (Some ((a, b), (c, d))) ps =
     Some ((fold min (map fst ps) a, fold min (map snd ps) b),
           (fold max (map fst ps) c, fold max (map snd ps) d))"
  by (induction ps arbitrary: a b c d) simp_all

lemma latLngBounds_Cons:
  "latLngBounds (p # ps) =
     Some ((Min (fst ` set (p # ps)), Min (snd ` set (p # ps))),
           (Max (fst ` set (p # ps)), Max (snd ` set (p # ps))))"
proof -
  have "latLngBounds (p # ps) = foldl extendBounds (Some ((fst p, snd p), (fst p, snd p))) ps"
    by (simp add: latLngBounds_def)
  also have "\<dots> = Some ((fold min (map fst ps) (fst p), fold min (map snd ps) (snd p)),
           (fold max (map fst ps) (fst p), fold max (map snd ps) (snd p)))"
    by (rule foldl_extend)
  also have "fold min (map fst ps) (fst p) = Min (set (map fst (p # ps)))"
    unfolding list.map by (rule Min.set_eq_fold [symmetric])
  also have "fold min (map snd ps) (snd p) = Min (set (map snd (p # ps)))"
    unfolding list.map by (rule Min.set_eq_fold [symmetric])
  also have "fold max (map fst ps) (fst p) = Max (set (map fst (p # ps)))"
    unfolding list.map by (rule Max.set_eq_fold [symmetric])
  also have "fold max (map snd ps) (snd p) = Max (set (map snd (p # ps)))"
    unfolding list.map by (rule Max.set_eq_fold [symmetric])
  finally show ?thesis by simp
qed

lemma latLngBounds_smallest:
  assumes "ps \<noteq> []"
  shows "\<exists>b. latLngBounds ps = Some b \<and> (\<forall>p \<in> set ps. covers b p)
            \<and> (\<forall>b'. (\<forall>p \<in> set ps. covers b' p) \<longrightarrow> inside b b')"
proof -
  obtain q qs where ps: "ps = q # qs" using assms by (cases ps) auto
  let ?b = "((Min (fst ` set ps), Min (snd ` set ps)), (Max (fst ` set ps), Max (snd ` set ps)))"
  have eq: "latLngBounds ps = Some ?b" unfolding ps by (rule latLngBounds_Cons)
  have cov: "covers ?b p" if "p \<in> set ps" for p
    using that by (simp add: covers_def)
  have small: "inside ?b b'" if "\<forall>p \<in> set ps. covers b' p" for b'
  proof -
    have ne: "fst ` set ps \<noteq> {}" "snd ` set ps \<noteq> {}" using assms by simp_all
    have fin: "finite (fst ` set ps)" "finite (snd ` set ps)" by simp_all
    have "Min (fst ` set ps) \<in> fst ` set ps" "Max (fst ` set ps) \<in> fst ` set ps"
         "Min (snd ` set ps) \<in> snd ` set ps" "Max (snd ` set ps) \<in> snd ` set ps"
      using ne fin by (simp_all add: Min_in Max_in del: set_empty)
    moreover have "fst (fst b') \<le> x \<and> x \<le> fst (snd b')" if "x \<in> fst ` set ps" for x
      using that \<open>\<forall>p \<in> set ps. covers b' p\<close> by (auto simp: covers_def)
    moreover have "snd (fst b') \<le> x \<and> x \<le> snd (snd b')" if "x \<in> snd ` set ps" for x
      using that \<open>\<forall>p \<in> set ps. covers b' p\<close> by (auto simp: covers_def)
    ultimately show ?thesis by (simp add: inside_def covers_def)
  qed
  show ?thesis using eq cov small by blast
qed

text \<open>
  C7, as the specification states it, fails twice. The fallback takes the first station
  whose \<^verbatim>\<open>lat\<close> and \<^verbatim>\<open>lon\<close> are both truthy and never reads \<^verbatim>\<open>is_active\<close>: with an
  inactive station first in the directory the rectangle is around it, not around the
  first active one. And in UserRouteMap a null \<open>bounds\<close> does not lead to the default
  centre but to the centre the input carries.
\<close>

theorem C7_counterexample:
  "bounds \<lparr>stations = inactiveFirst, polylines = [], loading = False, error = None\<rparr>
     = Some ((40, 29), (40, 29))
   \<and> firstActiveLocation inactiveFirst
     = Some \<lparr>st_id = 2, st_name = ''Merkez'', lat = 41, lon = 30, is_active = Some True\<rparr>
   \<and> bounds \<lparr>stations = inactiveFirst, polylines = [], loading = False, error = None\<rparr>
     \<noteq> Some ((41, 30), (41, 30))
   \<and> userCenter (Some \<lparr>center = (41, 30), map_polylines = []\<rparr>) exView \<noteq> DEFAULT_CENTER"
  by (simp add: bounds_def inactiveFirst_def truthy_def latLngBounds_def
      firstActiveLocation_def userCenter_def DEFAULT_CENTER_def)

text \<open>
  C7, amended. When some polyline has a point, the viewport is the rectangle Leaflet
  builds from all points of all polylines; it covers each of them and lies inside
  every rectangle that does. When there is no point, it is the one-point rectangle at
  the first station, in directory order, whose latitude and longitude are both
  non-zero, active or not. When there is no such station \<open>bounds\<close> is null: PlanningMap
  then centres the map at \<open>DEFAULT_CENTER\<close>, UserRouteMap at the centre of its input
  (at \<open>DEFAULT_CENTER\<close> only without an input).
\<close>

theorem C7_viewport_covers_the_polylines:
  "(concat (map points (polylines view)) \<noteq> [] \<longrightarrow>
      (\<exists>b. bounds view = Some b
          \<and> (\<forall>pl \<in> set (polylines view). \<forall>p \<in> set (points pl). covers b p)
          \<and> (\<forall>b'. (\<forall>pl \<in> set (polylines view). \<forall>p \<in> set (points pl). covers b' p)
                  \<longrightarrow> inside b b')))
   \<and> (concat (map points (polylines view)) = [] \<longrightarrow>
        bounds view =
          (case find (\<lambda>s. lat s \<noteq> 0 \<and> lon s \<noteq> 0) (stations view) of
             Some s \<Rightarrow> Some ((lat s, lon s), (lat s, lon s))
           | None \<Rightarrow> None))
   \<and> (bounds view = None \<longrightarrow>
        planningCenter view = DEFAULT_CENTER
        \<and> userCenter None view = DEFAULT_CENTER
        \<and> userCenter (Some mapData) view = center mapData)"
proof (intro conjI impI)
  assume ne: "concat (map points (polylines view)) \<noteq> []"
  then have "bounds view = latLngBounds (concat (map points (polylines view)))"
    by (auto simp: bounds_def)
  moreover obtain b where b: "latLngBounds (concat (map points (polylines view))) = Some b"
    and cov: "\<forall>p \<in> set (concat (map points (polylines view))). covers b p"
    and small: "\<forall>b'. (\<forall>p \<in> set (concat (map points (polylines view))). covers b' p)
                  \<longrightarrow> inside b b'"
    using latLngBounds_smallest [OF ne] by blast
  moreover have "\<forall>pl \<in> set (polylines view). \<forall>p \<in> set (points pl). covers b p"
    using cov by auto
  moreover have "\<forall>b'. (\<forall>pl \<in> set (polylines view). \<forall>p \<in> set (points pl). covers b' p)
                  \<longrightarrow> inside b b'"
  proof (intro allI impI)
    fix b'
    assume "\<forall>pl \<in> set (polylines view). \<forall>p \<in> set (points pl). covers b' p"
    then have "\<forall>p \<in> set (concat (map points (polylines view))). covers b' p" by auto
    with small show "inside b b'" by blast
  qed
  ultimately show "\<exists>b. bounds view = Some b
          \<and> (\<forall>pl \<in> set (polylines view). \<forall>p \<in> set (points pl). covers b p)
          \<and> (\<forall>b'. (\<forall>pl \<in> set (polylines view). \<forall>p \<in> set (points pl). covers b' p)
                  \<longrightarrow> inside b b')"
    by simp
next
  assume "concat (map points (polylines view)) = []"
  then show "bounds view =
          (case find (\<lambda>s. lat s \<noteq> 0 \<and> lon s \<noteq> 0) (stations view) of
             Some s \<Rightarrow> Some ((lat s, lon s), (lat s, lon s))
           | None \<Rightarrow> None)"
    by (simp add: bounds_def truthy_def latLngBounds_def split: option.splits)
next
  assume "bounds view = None"
  then show "planningCenter view = DEFAULT_CENTER" by (simp add: planningCenter_def)
next
  assume "bounds view = None"
  then show "userCenter None view = DEFAULT_CENTER" by (simp add: userCenter_def)
next
  show "userCenter (Some mapData) view = center mapData" by (simp add: userCenter_def)
qed


text \<open>C7 as amended, at one state for each of the three cases.\<close>

theorem C7_witness:
  "(\<exists>b. bounds drawnView = Some b \<and> covers b (40, 29) \<and> covers b (41, 30)
        \<and> inside b ((40, 29), (41, 30)))
   \<and> bounds (exView\<lparr>stations := inactiveFirst\<rparr>) = Some ((40, 29), (40, 29))
   \<and> bounds exView = None
   \<and> planningCenter exView = (39, 35)
   \<and> userCenter (Some \<lparr>center = (41, 30), map_polylines = []\<rparr>) exView = (41, 30)"
proof -
  have "concat (map points (polylines drawnView)) \<noteq> []"
    by (simp add: drawnView_def)
  with C7_viewport_covers_the_polylines [of drawnView]
  obtain b where b: "bounds drawnView = Some b"
    and cov: "\<forall>pl \<in> set (polylines drawnView). \<forall>p \<in> set (points pl). covers b p"
    and small: "\<forall>b'. (\<forall>pl \<in> set (polylines drawnView). \<forall>p \<in> set (points pl). covers b' p)
                  \<longrightarrow> inside b b'"
    by blast
  have "covers b (40, 29)" "covers b (41, 30)"
    using cov by (simp_all add: drawnView_def)
  moreover have "\<forall>pl \<in> set (polylines drawnView). \<forall>p \<in> set (points pl).
      covers ((40, 29), (41, 30)) p"
    by (simp add: drawnView_def covers_def)
  then have "inside b ((40, 29), (41, 30))" using small by blast
  ultimately have first: "\<exists>b. bounds drawnView = Some b \<and> covers b (40, 29) \<and> covers b (41, 30)
        \<and> inside b ((40, 29), (41, 30))"
    using b by blast
  have second: "bounds (exView\<lparr>stations := inactiveFirst\<rparr>) = Some ((40, 29), (40, 29))"
    using C7_viewport_covers_the_polylines [of "exView\<lparr>stations := inactiveFirst\<rparr>"]
    by (simp add: exView_def inactiveFirst_def)
  have none: "bounds exView = None"
    using C7_viewport_covers_the_polylines [of exView] by (simp add: exView_def)
  have third: "planningCenter exView = (39, 35)
      \<and> userCenter (Some \<lparr>center = (41, 30), map_polylines = []\<rparr>) exView = (41, 30)"
    using C7_viewport_covers_the_polylines [of exView "\<lparr>center = (41, 30), map_polylines = []\<rparr>"] none
    by (simp add: DEFAULT_CENTER_def)
  show ?thesis using first second none third by blast
qed

subsection \<open>The effect\<close>

lemma abort_view: "renderState (abort ref c) = renderState c"
  by (cases ref) (simp_all add: abort_def)

lemma abort_length: "length (cycles (abort ref c)) = length (cycles c)"
  by (cases ref) (simp_all add: abort_def)

lemma abort_refs: "abortRef (abort ref c) = abortRef c" "cleanup (abort ref c) = cleanup c"
  by (cases ref; simp add: abort_def)+

lemma abort_aborted:
  "k < length (cycles c) \<Longrightarrow>
   aborted (cycles (abort ref c) ! k) = (aborted (cycles c ! k) \<or> ref = Some k)"
proof (cases ref)
  case None
  then show ?thesis by (simp add: abort_def)
next
  case (Some a)
  assume k: "k < length (cycles c)"
  show ?thesis
  proof (cases "a < length (cycles c)")
    case True
    then show ?thesis using Some k by (auto simp: abort_def nth_list_update)
  next
    case False
    then show ?thesis using Some k by (auto simp: abort_def)
  qed
qed

declare step.simps [simp del]

lemma step_answer:
  "k < length (cycles c) \<Longrightarrow>
   step idPrefix c (Answer k a) =
     yield k (resumeCycle idPrefix (aborted (cycles c ! k)) (suspended (cycles c ! k)) a (renderState c)) c"
  by (simp add: step.simps)

lemma step_answer_beyond:
  "\<not> k < length (cycles c) \<Longrightarrow> step idPrefix c (Answer k a) = c"
  by (simp add: step.simps)

lemma run_Nil: "run idPrefix c [] = c"
  by (simp add: run_def)

lemma run_Cons: "run idPrefix c (e # evs) = run idPrefix (step idPrefix c e) evs"
  by (simp add: run_def)

lemma yield_fields:
  "renderState (yield k vs c) = fst vs"
  "length (cycles (yield k vs c)) = length (cycles c)"
  "cleanup (yield k vs c) = cleanup c"
  "abortRef (yield k vs c) = abortRef c"
  by (simp_all add: yield_def)

lemma yield_nth:
  "j < length (cycles c) \<Longrightarrow>
   cycles (yield k vs c) ! j = (if j = k then (cycles c ! k)\<lparr>suspended := snd vs\<rparr> else cycles c ! j)"
  by (simp add: yield_def nth_list_update)

lemma yield_aborted:
  "j < length (cycles c) \<Longrightarrow> aborted (cycles (yield k vs c) ! j) = aborted (cycles c ! j)"
  by (simp add: yield_nth)

lemma continueLoop_skip:
  "stopIds r = [] \<Longrightarrow>
   continueLoop stationList (r # rest) vIdx acc v = continueLoop stationList rest (Suc vIdx) acc v"
  by (simp add: continueLoop_def)

lemma continueLoop_send:
  "stopIds r \<noteq> [] \<Longrightarrow>
   continueLoop stationList (r # rest) vIdx acc v =
     (v, AwaitExpand stationList vIdx r rest (acc\<lparr>requests := requests acc @ [(vIdx, stopIds r)]\<rparr>))"
  by (simp add: continueLoop_def)

lemma continueLoop_done:
  "continueLoop stationList [] vIdx acc v = (completeCycle stationList acc v, Settled)"
  by (simp add: continueLoop_def)

text \<open>The machine, fed the answers of the services to one cycle, ends where the
  uninterrupted \<open>buildRoutes\<close> ends.\<close>

lemma buildRoutes_stations_only:
  "stations v = stations w \<Longrightarrow>
   buildRoutes idPrefix dirResp svc planning v = buildRoutes idPrefix dirResp svc planning w"
  by (cases v; cases w)
     (simp add: buildRoutes_def beginCycle_def failCycle_def completeCycle_def Let_def
      split: sum.splits)

lemma loop_run:
  assumes "k < length (cycles c)" and "\<not> aborted (cycles c ! k)"
  shows "renderState (run idPrefix (yield k (continueLoop stationList rest i acc (renderState c)) c)
           (map (\<lambda>(j, ids). Answer k (ExpandAnswer (svc j ids)))
              (map (\<lambda>(j, r). (j, stopIds r)) (attempted i rest)))) =
         completeCycle stationList
           (routeLoop idPrefix svc (mkStationMap stationList) rest i acc) (renderState c)"
  using assms
proof (induction rest arbitrary: i acc c)
  case Nil
  show ?case by (simp add: attempted_Nil continueLoop_done run_Nil yield_fields)
next
  case (Cons r rest)
  show ?case
  proof (cases "stopIds r = []")
    case True
    then show ?thesis
      using Cons.IH [OF Cons.prems, of "Suc i" acc]
      by (simp add: continueLoop_skip attempted_Cons)
  next
    case False
    let ?acc = "acc\<lparr>requests := requests acc @ [(i, stopIds r)]\<rparr>"
    let ?c1 = "yield k (renderState c, AwaitExpand stationList i r rest ?acc) c"
    have k1: "k < length (cycles ?c1)" using Cons.prems by (simp add: yield_fields)
    have a1: "\<not> aborted (cycles ?c1 ! k)" using Cons.prems by (simp add: yield_aborted)
    have s1: "suspended (cycles ?c1 ! k) = AwaitExpand stationList i r rest ?acc"
      using Cons.prems by (simp add: yield_nth)
    have v1: "renderState ?c1 = renderState c" by (simp add: yield_fields)
    have "step idPrefix ?c1 (Answer k (ExpandAnswer (svc i (stopIds r)))) =
          yield k (continueLoop stationList rest (Suc i)
                     (afterExpand idPrefix (mkStationMap stationList) i r (svc i (stopIds r)) ?acc)
                     (renderState ?c1)) ?c1"
      using k1 a1 s1 by (simp add: step_answer)
    then show ?thesis
      using Cons.IH [OF k1 a1, of "Suc i"
          "afterExpand idPrefix (mkStationMap stationList) i r (svc i (stopIds r)) ?acc"] False
      by (simp add: continueLoop_send attempted_Cons run_Cons v1)
  qed
qed

lemma render_fields:
  "renderState (step idPrefix c (Render (Some planning))) = beginCycle (renderState c)"
  "length (cycles (step idPrefix c (Render (Some planning)))) = Suc (length (cycles c))"
  "cycles (step idPrefix c (Render (Some planning))) ! length (cycles c) =
     \<lparr>aborted = False, suspended = AwaitStations planning\<rparr>"
  "cleanup (step idPrefix c (Render (Some planning))) = Some (length (cycles c))"
  by (simp_all add: step.simps Let_def abort_view abort_length nth_append)

lemma cycle_run:
  "renderState (run idPrefix (step idPrefix c (Render (Some planning)))
           (answers idPrefix (length (cycles c)) dirResp svc planning)) =
     buildRoutes idPrefix dirResp svc planning (renderState c)"
proof -
  let ?k = "length (cycles c)"
  let ?c1 = "step idPrefix c (Render (Some planning))"
  have k: "?k < length (cycles ?c1)" by (simp only: render_fields)
  have na: "\<not> aborted (cycles ?c1 ! ?k)" by (simp only: render_fields) simp
  have first: "step idPrefix ?c1 (Answer ?k (StationsAnswer dirResp)) =
      yield ?k (resumeCycle idPrefix False (AwaitStations planning) (StationsAnswer dirResp)
                  (beginCycle (renderState c))) ?c1"
    using step_answer [OF k, of idPrefix "StationsAnswer dirResp"]
    by (simp only: render_fields) simp
  show ?thesis
  proof (cases "fetchStations dirResp")
    case (Inl e)
    then show ?thesis
      unfolding answers_def run_Cons first
      by (simp add: expandCalls_def buildRoutes_def run_Nil yield_fields)
  next
    case (Inr stationList)
    have calls: "expandCalls idPrefix dirResp svc planning =
        map (\<lambda>(j, r). (j, stopIds r)) (attempted 0 planning)"
      by (simp add: expandCalls_def Inr routeLoop_requests emptyLoop_def)
    have "resumeCycle idPrefix False (AwaitStations planning) (StationsAnswer dirResp)
            (beginCycle (renderState c)) =
          continueLoop stationList planning 0 emptyLoop (renderState ?c1)"
      by (simp only: render_fields) (simp add: Inr)
    then show ?thesis
      unfolding answers_def run_Cons first calls
      using loop_run [OF k na, of idPrefix stationList planning 0 emptyLoop svc]
      by (simp add: buildRoutes_def Inr render_fields)
  qed
qed


lemma resume_aborted: "fst (resumeCycle idPrefix True s a v) = v"
  by (cases s; cases a) simp_all

text \<open>Every controller is aborted, except at most the one the pending cleanup will
  abort.\<close>

lemma step_keeps_controllers:
  assumes "\<forall>k < length (cycles c). aborted (cycles c ! k) \<or> cleanup c = Some k"
  shows "\<forall>k < length (cycles (step idPrefix c e)).
           aborted (cycles (step idPrefix c e) ! k) \<or> cleanup (step idPrefix c e) = Some k"
proof (cases e)
  case (Render p)
  show ?thesis
  proof (cases p)
    case None
    then show ?thesis using assms Render
      by (simp add: step.simps Let_def abort_length abort_aborted)
  next
    case (Some planning)
    have "aborted (cycles (step idPrefix c (Render (Some planning))) ! k)
          \<or> cleanup (step idPrefix c (Render (Some planning))) = Some k"
      if "k < Suc (length (cycles c))" for k
    proof (cases "k = length (cycles c)")
      case True
      then show ?thesis by (simp add: render_fields)
    next
      case False
      with that have "k < length (cycles c)" by simp
      then show ?thesis using assms
        by (simp add: step.simps Let_def abort_length abort_aborted nth_append)
    qed
    then show ?thesis using Render Some by (simp add: render_fields)
  qed
next
  case (Answer k a)
  show ?thesis
  proof (cases "k < length (cycles c)")
    case True
    then show ?thesis using assms Answer
      by (simp add: step_answer yield_fields yield_aborted)
  next
    case False
    then show ?thesis using assms Answer by (simp add: step_answer_beyond)
  qed
qed

lemma reachable_controllers:
  "\<forall>k < length (cycles (run idPrefix mount history)).
      aborted (cycles (run idPrefix mount history) ! k)
      \<or> cleanup (run idPrefix mount history) = Some k"
proof (induction history rule: rev_induct)
  case Nil
  show ?case by (simp add: run_Nil mount_def)
next
  case (snoc e history)
  have "run idPrefix mount (history @ [e]) = step idPrefix (run idPrefix mount history) e"
    by (simp add: run_def)
  then show ?case using step_keeps_controllers [OF snoc.IH, where e = e] by simp
qed

lemma render_aborts_earlier:
  assumes "\<forall>k < length (cycles c). aborted (cycles c ! k) \<or> cleanup c = Some k"
    and "k < length (cycles c)"
  shows "aborted (cycles (step idPrefix c (Render (Some planning))) ! k)"
  using assms by (simp add: step.simps Let_def abort_length abort_aborted nth_append)

lemma late_answers_ignored:
  assumes "\<forall>e \<in> set evs. isAnswer e"
    and "renderState c = renderState d"
    and "length (cycles c) = Suc n" and "length (cycles d) = Suc n"
    and "cycles c ! n = cycles d ! n"
    and "\<forall>k < n. aborted (cycles c ! k)"
  shows "renderState (run idPrefix c evs) = renderState (run idPrefix d (filter (\<lambda>e. cycleOf e = Some n) evs))
       \<and> (\<forall>k < n. aborted (cycles (run idPrefix c evs) ! k))"
  using assms
proof (induction evs arbitrary: c d)
  case Nil
  then show ?case by (simp add: run_Nil)
next
  case (Cons e evs)
  then obtain k a where e: "e = Answer k a" by (cases e) auto
  have rest: "\<forall>e \<in> set evs. isAnswer e" using Cons.prems(1) by simp
  have len: "length (cycles (step idPrefix c e)) = Suc n"
    using Cons.prems(3) unfolding e
    by (cases "k < length (cycles c)") (simp_all add: step_answer step_answer_beyond yield_fields)
  have ab: "\<forall>j < n. aborted (cycles (step idPrefix c e) ! j)"
    using Cons.prems(3,6) unfolding e
    by (cases "k < length (cycles c)") (simp_all add: step_answer step_answer_beyond yield_aborted)
  show ?case
  proof (cases "k = n")
    case True
    have kc: "k < length (cycles c)" and kd: "k < length (cycles d)"
      using True Cons.prems(3,4) by simp_all
    have same: "resumeCycle idPrefix (aborted (cycles c ! k)) (suspended (cycles c ! k)) a (renderState c) =
                resumeCycle idPrefix (aborted (cycles d ! k)) (suspended (cycles d ! k)) a (renderState d)"
      using True Cons.prems(2,5) by simp
    have v: "renderState (step idPrefix c e) = renderState (step idPrefix d e)"
      unfolding e by (simp add: step_answer [OF kc] step_answer [OF kd] yield_fields same)
    have ld: "length (cycles (step idPrefix d e)) = Suc n"
      using Cons.prems(4) unfolding e by (simp add: step_answer [OF kd] yield_fields)
    have eqk: "cycles c ! k = cycles d ! k" using True Cons.prems(5) by simp
    have "cycles (step idPrefix c e) ! k = cycles (step idPrefix d e) ! k"
      unfolding e
      by (simp add: step_answer [OF kc] step_answer [OF kd] yield_nth [OF kc] yield_nth [OF kd]
          eqk Cons.prems(2))
    then have cy: "cycles (step idPrefix c e) ! n = cycles (step idPrefix d e) ! n"
      using True by simp
    show ?thesis
      using Cons.IH [OF rest v len ld cy ab] True
      by (simp add: run_Cons e)
  next
    case False
    have v: "renderState (step idPrefix c e) = renderState d"
    proof (cases "k < n")
      case True
      then have "aborted (cycles c ! k)" and "k < length (cycles c)"
        using Cons.prems(3,6) by simp_all
      then show ?thesis
        unfolding e using Cons.prems(2) by (simp add: step_answer yield_fields resume_aborted)
    next
      case False
      with \<open>k \<noteq> n\<close> have "\<not> k < length (cycles c)" using Cons.prems(3) by simp
      then show ?thesis unfolding e using Cons.prems(2) by (simp add: step_answer_beyond)
    qed
    have cy: "cycles (step idPrefix c e) ! n = cycles d ! n"
      using False Cons.prems(3,5) unfolding e
      by (cases "k < length (cycles c)") (simp_all add: step_answer step_answer_beyond yield_nth)
    show ?thesis
      using Cons.IH [OF rest v len Cons.prems(4) cy ab] False
      by (simp add: run_Cons e)
  qed
qed

lemma aborted_answers_ignored:
  assumes "\<forall>e \<in> set evs. isAnswer e"
    and "\<forall>k < length (cycles c). aborted (cycles c ! k)"
  shows "renderState (run idPrefix c evs) = renderState c"
  using assms
proof (induction evs arbitrary: c)
  case Nil
  show ?case by (simp add: run_Nil)
next
  case (Cons e evs)
  then obtain k a where e: "e = Answer k a" by (cases e) auto
  have rest: "\<forall>e \<in> set evs. isAnswer e" using Cons.prems(1) by simp
  show ?case
  proof (cases "k < length (cycles c)")
    case True
    then have ab: "aborted (cycles c ! k)" using Cons.prems(2) by simp
    have v: "renderState (step idPrefix c e) = renderState c"
      unfolding e by (simp add: step_answer [OF True] yield_fields ab resume_aborted)
    have "\<forall>j < length (cycles (step idPrefix c e)). aborted (cycles (step idPrefix c e) ! j)"
      unfolding e using Cons.prems(2)
      by (simp add: step_answer [OF True] yield_fields yield_aborted)
    then show ?thesis using Cons.IH [OF rest] v by (simp add: run_Cons)
  next
    case False
    then show ?thesis
      using Cons.IH [OF rest Cons.prems(2)] by (simp add: run_Cons e step_answer_beyond)
  qed
qed

lemma clear_fields:
  "renderState (step idPrefix c (Render None)) = (renderState c)\<lparr>stations := [], polylines := [], error := None\<rparr>"
  "length (cycles (step idPrefix c (Render None))) = length (cycles c)"
  "cleanup (step idPrefix c (Render None)) = None"
  by (simp_all add: step.simps Let_def abort_view abort_length)

lemma clear_aborts_all:
  "k < length (cycles (run idPrefix mount history)) \<Longrightarrow>
   aborted (cycles (step idPrefix (run idPrefix mount history) (Render None)) ! k)"
  using step_keeps_controllers [OF reachable_controllers, where e = "Render None"
      and idPrefix = idPrefix]
  by (simp add: clear_fields)

lemma answers_keep_controllers:
  assumes "\<forall>e \<in> set evs. isAnswer e"
  shows "length (cycles (run idPrefix c evs)) = length (cycles c)
       \<and> (\<forall>k < length (cycles c). aborted (cycles (run idPrefix c evs) ! k) = aborted (cycles c ! k))"
  using assms
proof (induction evs arbitrary: c)
  case Nil
  show ?case by (simp add: run_Nil)
next
  case (Cons e evs)
  then obtain k a where e: "e = Answer k a" by (cases e) auto
  have rest: "\<forall>e \<in> set evs. isAnswer e" using Cons.prems by simp
  have one: "length (cycles (step idPrefix c e)) = length (cycles c)
       \<and> (\<forall>j < length (cycles c). aborted (cycles (step idPrefix c e) ! j) = aborted (cycles c ! j))"
    unfolding e
    by (cases "k < length (cycles c)")
       (simp_all add: step_answer step_answer_beyond yield_fields yield_aborted)
  show ?case using Cons.IH [OF rest, of "step idPrefix c e"] one by (simp add: run_Cons)
qed

lemma answers_keep_aborted:
  assumes "\<forall>e \<in> set evs. isAnswer e" and "k < length (cycles c)"
  shows "aborted (cycles (run idPrefix c evs) ! k) = aborted (cycles c ! k)"
  using answers_keep_controllers [OF assms(1), of idPrefix c] assms(2) by simp

text \<open>
  What holds of cancellation. Take any history of renders and answers since the mount,
  then a render with a new input, then answers in any order and to any cycle, with no
  further render. Every controller created before that render is aborted and stays
  so: the requests in flight for earlier cycles are cancelled. The answers to earlier
  cycles update nothing: the React state is the one reached when only the answers to
  the new cycle are kept, and when these are the answers of the directory and of the
  expansion service to the new cycle's requests, it is the state of one uninterrupted
  \<open>buildRoutes\<close> on the new input, started from any state with the same \<open>stations\<close>
  (which the run keeps only when its directory fetch fails). After a render with a
  null input the late answers update nothing either, but the state is then the
  previous one with three fields emptied: \<open>loading\<close> is not among them.
\<close>

lemma superseded_cycles_are_cancelled_and_ignored:
  assumes "\<forall>e \<in> set later. isAnswer e"
  shows "(\<forall>k < length (cycles (run idPrefix mount history)).
            aborted (cycles (run idPrefix (step idPrefix (run idPrefix mount history)
                                (Render trigger)) later) ! k))
       \<and> renderState (run idPrefix (step idPrefix (run idPrefix mount history) (Render (Some planning)))
                 later) =
         renderState (run idPrefix (step idPrefix (run idPrefix mount history) (Render (Some planning)))
                 (filter (\<lambda>e. cycleOf e = Some (length (cycles (run idPrefix mount history))))
                    later))
       \<and> (filter (\<lambda>e. cycleOf e = Some (length (cycles (run idPrefix mount history)))) later =
            answers idPrefix (length (cycles (run idPrefix mount history))) dirResp svc planning
          \<longrightarrow> (\<forall>v. stations v = stations (renderState (run idPrefix mount history)) \<longrightarrow>
                 renderState (run idPrefix (step idPrefix (run idPrefix mount history)
                                (Render (Some planning))) later) =
                 buildRoutes idPrefix dirResp svc planning v))
       \<and> renderState (run idPrefix (step idPrefix (run idPrefix mount history) (Render None)) later) =
           (renderState (run idPrefix mount history))\<lparr>stations := [], polylines := [], error := None\<rparr>"
proof -
  let ?now = "run idPrefix mount history"
  let ?n = "length (cycles ?now)"
  let ?started = "step idPrefix ?now (Render (Some planning))"
  let ?emptied = "step idPrefix ?now (Render None)"
  have earlier: "\<forall>k < ?n. aborted (cycles ?started ! k)"
    using render_aborts_earlier [OF reachable_controllers] by simp
  have cleared: "\<forall>k < length (cycles ?emptied). aborted (cycles ?emptied ! k)"
    using clear_aborts_all [of _ idPrefix history] by (simp add: clear_fields)
  have len: "length (cycles ?started) = Suc ?n" by (simp add: render_fields)
  have cancelled: "aborted (cycles (run idPrefix (step idPrefix ?now (Render trigger)) later) ! k)"
    if "k < ?n" for k
  proof (cases trigger)
    case None
    have k0: "k < length (cycles ?emptied)" using that by (simp add: clear_fields)
    have "aborted (cycles ?emptied ! k)" using cleared k0 by simp
    then show ?thesis
      unfolding None by (simp only: answers_keep_aborted [OF assms k0])
  next
    case (Some p)
    have kp: "k < length (cycles (step idPrefix ?now (Render (Some p))))"
      using that by (simp add: render_fields)
    have "aborted (cycles (step idPrefix ?now (Render (Some p))) ! k)"
      using render_aborts_earlier [OF reachable_controllers that] .
    then show ?thesis
      unfolding Some by (simp only: answers_keep_aborted [OF assms kp])
  qed
  have both: "renderState (run idPrefix ?started later) =
        renderState (run idPrefix ?started (filter (\<lambda>e. cycleOf e = Some ?n) later))
      \<and> (\<forall>k < ?n. aborted (cycles (run idPrefix ?started later) ! k))"
    using late_answers_ignored [OF assms refl len len refl earlier] .
  have only: "renderState (run idPrefix ?started later) = buildRoutes idPrefix dirResp svc planning v"
    if "filter (\<lambda>e. cycleOf e = Some ?n) later = answers idPrefix ?n dirResp svc planning"
      and "stations v = stations (renderState ?now)" for v :: RenderState
    using both that(1) cycle_run [of idPrefix ?now planning dirResp svc]
      buildRoutes_stations_only [OF that(2), of idPrefix dirResp svc planning]
    by simp
  have null: "renderState (run idPrefix ?emptied later) =
      (renderState ?now)\<lparr>stations := [], polylines := [], error := None\<rparr>"
    using aborted_answers_ignored [OF assms cleared] by (simp add: clear_fields)
  show ?thesis
  proof (intro conjI allI impI)
    fix k assume "k < ?n"
    then show "aborted (cycles (run idPrefix (step idPrefix ?now (Render trigger)) later) ! k)"
      by (rule cancelled)
  next
    show "renderState (run idPrefix ?started later) =
        renderState (run idPrefix ?started (filter (\<lambda>e. cycleOf e = Some ?n) later))"
      using both by (rule conjunct1)
  next
    fix v :: RenderState
    assume "filter (\<lambda>e. cycleOf e = Some ?n) later = answers idPrefix ?n dirResp svc planning"
      and "stations v = stations (renderState ?now)"
    then show "renderState (run idPrefix ?started later) =
        buildRoutes idPrefix dirResp svc planning v"
      by (rule only)
  next
    show "renderState (run idPrefix ?emptied later) =
      (renderState ?now)\<lparr>stations := [], polylines := [], error := None\<rparr>"
      by (rule null)
  qed
qed

lemma exHistory_run:
  "length (cycles (run PLANNING_PREFIX mount exHistory)) = 1"
  "stations (renderState (run PLANNING_PREFIX mount exHistory)) = []"
  by (simp_all add: run_def exHistory_def step.simps mount_def abort_def Let_def yield_def
      twoRoutes_def continueLoop_def beginCycle_def)

lemma oneRoute_answers:
  "answers PLANNING_PREFIX 1 (HttpOk (Some exStations)) secondFails oneRoute =
     [Answer 1 (StationsAnswer (HttpOk (Some exStations))),
      Answer 1 (ExpandAnswer (HttpOk (Some \<lparr>expanded_station_ids = Some [10, 15, 20]\<rparr>)))]"
  by (simp add: answers_def expandCalls_def routeLoop_requests emptyLoop_def attempted_Cons
      attempted_Nil oneRoute_def secondFails_def del: routeLoop.simps)

lemma oneRoute_built:
  "stations v = [] \<Longrightarrow>
   buildRoutes PLANNING_PREFIX (HttpOk (Some exStations)) secondFails oneRoute v = drawnView"
  by (cases v)
     (simp add: buildRoutes_def completeCycle_def beginCycle_def oneRoute_def secondFails_def
      afterExpand_def pushRoute_def emptyLoop_def exMap_simps Let_def routeId_def orElse_def
      MAP_COLORS_def drawnView_def)

text \<open>In the interleaved history the first controller is aborted, and the final state
  is the one route of the second input, drawn through station 15.\<close>

lemma interleaved_answers_example:
  "aborted (cycles (run PLANNING_PREFIX
       (step PLANNING_PREFIX (run PLANNING_PREFIX mount exHistory) (Render (Some oneRoute)))
       exLater) ! 0)
   \<and> renderState (run PLANNING_PREFIX
       (step PLANNING_PREFIX (run PLANNING_PREFIX mount exHistory) (Render (Some oneRoute)))
       exLater) = drawnView"
proof -
  have only: "\<forall>e \<in> set exLater. isAnswer e"
    by (simp add: exLater_def)
  have mine: "filter (\<lambda>e. cycleOf e = Some (length (cycles (run PLANNING_PREFIX mount exHistory))))
        exLater =
      answers PLANNING_PREFIX (length (cycles (run PLANNING_PREFIX mount exHistory)))
        (HttpOk (Some exStations)) secondFails oneRoute"
    unfolding exHistory_run oneRoute_answers by (simp add: exLater_def)
  note c2 = superseded_cycles_are_cancelled_and_ignored [OF only, of PLANNING_PREFIX exHistory
        "Some oneRoute" oneRoute "HttpOk (Some exStations)" secondFails]
  have "\<forall>k < length (cycles (run PLANNING_PREFIX mount exHistory)).
      aborted (cycles (run PLANNING_PREFIX
       (step PLANNING_PREFIX (run PLANNING_PREFIX mount exHistory) (Render (Some oneRoute)))
       exLater) ! k)"
    using c2 by blast
  then have first: "aborted (cycles (run PLANNING_PREFIX
       (step PLANNING_PREFIX (run PLANNING_PREFIX mount exHistory) (Render (Some oneRoute)))
       exLater) ! 0)"
    by (simp add: exHistory_run)
  have same: "stations exView = stations (renderState (run PLANNING_PREFIX mount exHistory))"
    by (simp add: exHistory_run exView_def)
  have "renderState (run PLANNING_PREFIX
       (step PLANNING_PREFIX (run PLANNING_PREFIX mount exHistory) (Render (Some oneRoute)))
       exLater) =
     buildRoutes PLANNING_PREFIX (HttpOk (Some exStations)) secondFails oneRoute exView"
    using c2 mine same by blast
  then have second: "renderState (run PLANNING_PREFIX
       (step PLANNING_PREFIX (run PLANNING_PREFIX mount exHistory) (Render (Some oneRoute)))
       exLater) = drawnView"
    by (simp add: oneRoute_built exView_def)
  show ?thesis using first second by (rule conjI)
qed

text \<open>
  C2. A cycle superseded by a render with an input is cancelled and never updates the
  state again (the lemma above). Superseded by a render with a null input it is
  cancelled too, and its late answer updates nothing, but the final state does not
  reflect the null input alone: \<open>loading\<close> is still the \<open>true\<close> that the superseded
  cycle set when it started, where a null input on its own leaves it \<open>false\<close>.
\<close>

theorem C2_null_trigger_keeps_loading_of_the_superseded_cycle:
  "aborted (cycles (run idPrefix mount [Render (Some planning), Render None, Answer 0 a]) ! 0)
   \<and> renderState (run idPrefix mount [Render (Some planning), Render None, Answer 0 a]) =
       \<lparr>stations = [], polylines = [], loading = True, error = None\<rparr>
   \<and> renderState (run idPrefix mount [Render None]) =
       \<lparr>stations = [], polylines = [], loading = False, error = None\<rparr>
   \<and> renderState (run idPrefix mount [Render (Some planning), Render None, Answer 0 a])
       \<noteq> renderState (run idPrefix mount [Render None])"
proof -
  have two: "run idPrefix mount [Render (Some planning), Render None] =
      \<lparr>renderState = \<lparr>stations = [], polylines = [], loading = True, error = None\<rparr>,
       cycles = [\<lparr>aborted = True, suspended = AwaitStations planning\<rparr>],
       abortRef = Some 0, cleanup = None\<rparr>"
    by (simp add: run_def step.simps mount_def abort_def Let_def beginCycle_def)
  have late: "run idPrefix mount [Render (Some planning), Render None, Answer 0 a] =
      step idPrefix (run idPrefix mount [Render (Some planning), Render None]) (Answer 0 a)"
    by (simp add: run_def)
  have flag: "aborted (cycles (run idPrefix mount
      [Render (Some planning), Render None, Answer 0 a]) ! 0)"
    unfolding late two by (simp add: step.simps yield_def)
  have mixed: "renderState (run idPrefix mount [Render (Some planning), Render None, Answer 0 a]) =
      \<lparr>stations = [], polylines = [], loading = True, error = None\<rparr>"
    unfolding late two
    using resume_aborted [of idPrefix "AwaitStations planning" a]
    by (simp add: step.simps yield_def)
  have alone: "renderState (run idPrefix mount [Render None]) =
      \<lparr>stations = [], polylines = [], loading = False, error = None\<rparr>"
    by (simp add: run_def step.simps mount_def abort_def Let_def)
  show ?thesis using flag mixed alone by simp
qed

text \<open>
  C8. A render with a null input creates no cycle, so it sends no request, and it
  empties \<open>stations\<close>, \<open>polylines\<close> and \<open>error\<close>; but it leaves \<open>loading\<close> as it finds
  it. Arriving while a cycle is in flight, it aborts that cycle, whose \<^verbatim>\<open>finally\<close>
  then skips \<^verbatim>\<open>setLoading(false)\<close>: \<open>loading\<close> stays true although no run is left
  unsettled, also once the aborted request has come back.
\<close>

theorem C8_null_input_leaves_loading_set:
  "renderState (run idPrefix mount [Render (Some planning), Render None]) =
     \<lparr>stations = [], polylines = [], loading = True, error = None\<rparr>
   \<and> renderState (run idPrefix mount [Render (Some planning), Render None, Answer 0 a]) =
     \<lparr>stations = [], polylines = [], loading = True, error = None\<rparr>
   \<and> map suspended (cycles (run idPrefix mount
         [Render (Some planning), Render None, Answer 0 (StationsAnswer resp)])) = [Settled]
   \<and> length (cycles (step idPrefix c (Render None))) = length (cycles c)
   \<and> stations (renderState (step idPrefix c (Render None))) = []
   \<and> polylines (renderState (step idPrefix c (Render None))) = []
   \<and> error (renderState (step idPrefix c (Render None))) = None
   \<and> loading (renderState (step idPrefix c (Render None))) = loading (renderState c)"
proof -
  have two: "run idPrefix mount [Render (Some planning), Render None] =
      \<lparr>renderState = \<lparr>stations = [], polylines = [], loading = True, error = None\<rparr>,
       cycles = [\<lparr>aborted = True, suspended = AwaitStations planning\<rparr>],
       abortRef = Some 0, cleanup = None\<rparr>"
    by (simp add: run_def step.simps mount_def abort_def Let_def beginCycle_def)
  have three: "renderState (run idPrefix mount [Render (Some planning), Render None, Answer 0 a]) =
      \<lparr>stations = [], polylines = [], loading = True, error = None\<rparr>"
    using two resume_aborted [of idPrefix "AwaitStations planning" a]
    by (simp add: run_def step.simps yield_def)
  have settled: "map suspended (cycles (run idPrefix mount
         [Render (Some planning), Render None, Answer 0 (StationsAnswer resp)])) = [Settled]"
    using two by (simp add: run_def step.simps yield_def)
  show ?thesis
    using two three settled
    by (simp add: step.simps Let_def abort_length abort_view)
qed

end
